theory Spec2Isabelle
  imports Complex_Main "HOL-Library.Char_ord" "HOL-Library.List_Lexorder" "HOL-Library.Multiset"
begin

section \<open>Strings\<close>

text \<open>
  A JavaScript string is modelled by the bytes of its UTF-8 encoding, the bytes that
  \<open>createHash("sha256").update(s)\<close> digests and that the JSON output holds: a code
  point is one to four bytes, and ASCII characters are single bytes that occur nowhere
  inside a longer sequence. Literals of the source are written as these bytes. The
  default comparison of \<open>Array.prototype.sort\<close> and \<open>>\<close> on strings is the
  lexicographic order of the bytes, which is the order of the code points (and so of the
  UTF-16 code units, for characters of the Basic Multilingual Plane). IEEE doubles that
  hold ratios of run counts are exact rationals.
\<close>

definition isCont :: "char \<Rightarrow> bool" where
  "isCont c = (128 \<le> (of_char c :: nat) \<and> (of_char c :: nat) < 192)"

definition seqLen :: "char \<Rightarrow> nat" where
  "seqLen c = (let n = (of_char c :: nat)
               in if n < 192 then 1 else if n < 224 then 2 else if n < 240 then 3 else 4)"

text \<open>The code points of a string: a lead byte with the continuation bytes it announces.\<close>

fun uchars :: "string \<Rightarrow> string list" where
  "uchars [] = []"
| "uchars (c # cs) =
     (let t = takeWhile isCont (take (seqLen c - 1) cs)
      in (c # t) # uchars (drop (length t) cs))"

text \<open>
  White space, for \<open>trim\<close> and the class \<open>\s\<close> alike: TAB, LF, VT, FF, CR, SP,
  U+00A0, U+1680, U+2000 to U+200A, U+2028, U+2029, U+202F, U+205F, U+3000 and U+FEFF.
\<close>

definition wsChars :: "string list" where
  "wsChars = map (\<lambda>n. [char_of n]) [9 ..< 14 :: nat] @ [[CHR 0x20], [CHR 0xC2, CHR 0xA0],
       [CHR 0xE1, CHR 0x9A, CHR 0x80]]
     @ map (\<lambda>n. [CHR 0xE2, CHR 0x80, char_of n]) [128 ..< 139 :: nat]
     @ [[CHR 0xE2, CHR 0x80, CHR 0xA8], [CHR 0xE2, CHR 0x80, CHR 0xA9],
        [CHR 0xE2, CHR 0x80, CHR 0xAF], [CHR 0xE2, CHR 0x81, CHR 0x9F],
        [CHR 0xE3, CHR 0x80, CHR 0x80], [CHR 0xEF, CHR 0xBB, CHR 0xBF]]"

definition isSpaceU :: "string \<Rightarrow> bool" where
  "isSpaceU u = (u \<in> set wsChars)"

definition stripWs :: "('a \<Rightarrow> bool) \<Rightarrow> 'a list \<Rightarrow> 'a list" where
  "stripWs ws xs = rev (dropWhile ws (rev (dropWhile ws xs)))"

text \<open>Every maximal run of white space becomes one blank \<open>b\<close>.\<close>

fun squeeze :: "('a \<Rightarrow> bool) \<Rightarrow> 'a \<Rightarrow> 'a list \<Rightarrow> 'a list" where
  "squeeze ws b [] = []"
| "squeeze ws b [x] = (if ws x then [b] else [x])"
| "squeeze ws b (x # y # xs) =
     (if ws x then (if ws y then squeeze ws b (y # xs) else b # squeeze ws b (y # xs))
      else x # squeeze ws b (y # xs))"

definition trim :: "string \<Rightarrow> string" where
  "trim s = concat (stripWs isSpaceU (uchars s))"

text \<open>\<open>s.replace(/\s+/g, " ")\<close>.\<close>

definition collapseWs :: "string \<Rightarrow> string" where
  "collapseWs s = concat (squeeze isSpaceU [CHR 0x20] (uchars s))"

text \<open>
  \<open>toLowerCase\<close> follows the Unicode standard: every code point is replaced by its
  lower-case mapping, except that a capital sigma (U+03A3) becomes the final sigma
  (U+03C2) when it ends a word, that is, when the nearest character before it that is
  not case-ignorable is a cased letter and the nearest such character after it is not,
  and the small sigma (U+03C3) otherwise. The tables of the standard are reproduced for
  Basic Latin, the Latin-1 Supplement and the Greek letters U+0384 to U+03CE; a code
  point outside these blocks is taken as it is, uncased and not case-ignorable, so
  statements about letter case are made for strings within these blocks only.
\<close>

definition isUpper :: "char \<Rightarrow> bool" where
  "isUpper c = (65 \<le> (of_char c :: nat) \<and> (of_char c :: nat) \<le> 90)"

definition isLower :: "char \<Rightarrow> bool" where
  "isLower c = (97 \<le> (of_char c :: nat) \<and> (of_char c :: nat) \<le> 122)"

definition toLowerChar :: "char \<Rightarrow> char" where
  "toLowerChar c = (if isUpper c then char_of ((of_char c :: nat) + 32) else c)"

definition inRange :: "nat \<Rightarrow> nat \<Rightarrow> char \<Rightarrow> bool" where
  "inRange lo hi c = (lo \<le> (of_char c :: nat) \<and> (of_char c :: nat) \<le> hi)"

definition shiftBy :: "int \<Rightarrow> char \<Rightarrow> char" where
  "shiftBy d c = char_of (nat (int (of_char c :: nat) + d))"

definition lowerOf :: "string \<Rightarrow> string" where
  "lowerOf u =
     (case u of
        [c] \<Rightarrow> [toLowerChar c]
      | [a, b] \<Rightarrow>
          if a = CHR 0xC3 \<and> inRange 0x80 0x9E b \<and> b \<noteq> CHR 0x97 then [a, shiftBy 32 b]
          else if a = CHR 0xCE \<and> b = CHR 0x86 then [a, CHR 0xAC]
          else if a = CHR 0xCE \<and> inRange 0x88 0x8A b then [a, shiftBy 37 b]
          else if a = CHR 0xCE \<and> b = CHR 0x8C then [CHR 0xCF, CHR 0x8C]
          else if a = CHR 0xCE \<and> inRange 0x8E 0x8F b then [CHR 0xCF, shiftBy (- 1) b]
          else if a = CHR 0xCE \<and> inRange 0x91 0x9F b then [a, shiftBy 32 b]
          else if a = CHR 0xCE \<and> inRange 0xA0 0xAB b \<and> b \<noteq> CHR 0xA2
            then [CHR 0xCF, shiftBy (- 32) b]
          else u
      | _ \<Rightarrow> u)"

definition isCased :: "string \<Rightarrow> bool" where
  "isCased u =
     (case u of
        [c] \<Rightarrow> isUpper c \<or> isLower c
      | [a, b] \<Rightarrow>
          (a = CHR 0xC2 \<and> b \<in> set [CHR 0xAA, CHR 0xB5, CHR 0xBA])
          \<or> (a = CHR 0xC3 \<and> inRange 0x80 0xBF b \<and> b \<noteq> CHR 0x97 \<and> b \<noteq> CHR 0xB7)
          \<or> (a = CHR 0xCE \<and> (b \<in> set [CHR 0x86, CHR 0x88, CHR 0x89, CHR 0x8A, CHR 0x8C]
                               \<or> inRange 0x8E 0xA1 b \<or> inRange 0xA3 0xBF b))
          \<or> (a = CHR 0xCF \<and> inRange 0x80 0x8E b)
      | _ \<Rightarrow> False)"

definition isCaseIgnorable :: "string \<Rightarrow> bool" where
  "isCaseIgnorable u =
     (case u of
        [c] \<Rightarrow> c \<in> set [CHR 0x27, CHR 0x2E, CHR 0x3A, CHR 0x5E, CHR 0x60]
      | [a, b] \<Rightarrow>
          (a = CHR 0xC2 \<and> b \<in> set [CHR 0xA8, CHR 0xAD, CHR 0xAF, CHR 0xB4, CHR 0xB7, CHR 0xB8])
          \<or> (a = CHR 0xCE \<and> b \<in> set [CHR 0x84, CHR 0x85, CHR 0x87])
      | _ \<Rightarrow> False)"

fun casedAhead :: "string list \<Rightarrow> bool" where
  "casedAhead [] = False"
| "casedAhead (u # us) = (isCased u \<or> (isCaseIgnorable u \<and> casedAhead us))"

fun lowerFrom :: "bool \<Rightarrow> string list \<Rightarrow> string list" where
  "lowerFrom casedBefore [] = []"
| "lowerFrom casedBefore (u # us) =
     (if u = [CHR 0xCE, CHR 0xA3]
      then (if casedBefore \<and> \<not> casedAhead us then [CHR 0xCF, CHR 0x82] else [CHR 0xCF, CHR 0x83])
      else lowerOf u)
     # lowerFrom (isCased u \<or> (isCaseIgnorable u \<and> casedBefore)) us"

definition toLowerCase :: "string \<Rightarrow> string" where
  "toLowerCase s = concat (lowerFrom False (uchars s))"

text \<open>\<open>xs.join(sep)\<close>.\<close>

fun join :: "string \<Rightarrow> string list \<Rightarrow> string" where
  "join sep [] = []"
| "join sep [x] = x"
| "join sep (x # y # ys) = x @ sep @ join sep (y # ys)"

text \<open>
  \<open>s.split(/[sep]+/).filter(Boolean)\<close>: the non-empty pieces between separators.
  \<open>cur\<close> is the piece being read.
\<close>

fun splitAcc :: "(char \<Rightarrow> bool) \<Rightarrow> string \<Rightarrow> string \<Rightarrow> string list" where
  "splitAcc sep cur [] = (if cur = [] then [] else [cur])"
| "splitAcc sep cur (c # cs) =
     (if sep c then (if cur = [] then splitAcc sep [] cs else cur # splitAcc sep [] cs)
      else splitAcc sep (cur @ [c]) cs)"

definition tokens :: "(char \<Rightarrow> bool) \<Rightarrow> string \<Rightarrow> string list" where
  "tokens sep s = splitAcc sep [] s"

definition digitChar :: "nat \<Rightarrow> char" where
  "digitChar d = char_of (48 + d)"

fun showNat :: "nat \<Rightarrow> string" where
  "showNat n = (if n < 10 then [digitChar n] else showNat (n div 10) @ [digitChar (n mod 10)])"

definition showInt :: "int \<Rightarrow> string" where
  "showInt i = (if i < 0 then CHR ''-'' # showNat (nat (- i)) else showNat (nat i))"

definition isDigit :: "char \<Rightarrow> bool" where
  "isDigit c = (48 \<le> (of_char c :: nat) \<and> (of_char c :: nat) \<le> 57)"

definition parseNat :: "string \<Rightarrow> nat" where
  "parseNat s = foldl (\<lambda>a c. 10 * a + ((of_char c :: nat) - 48)) 0 s"

text \<open>\<open>xs.slice(0, n)\<close>: a negative \<open>n\<close> counts from the end.\<close>

definition slice0 :: "int \<Rightarrow> 'a list \<Rightarrow> 'a list" where
  "slice0 n xs = (if n < 0 then take (nat (int (length xs) + n)) xs else take (nat n) xs)"

section \<open>Objects used as dictionaries\<close>

text \<open>
  A \<open>Record<string, number>\<close> and a \<open>Map\<close> are association lists in the order in
  which their keys were created. \<open>Object.entries\<close> of an ordinary object lists the keys
  that are array indices first, in ascending numeric order, and then the others in
  creation order; a \<open>Map\<close> iterates in creation order.
\<close>

definition alGet :: "('k \<times> 'v) list \<Rightarrow> 'k \<Rightarrow> 'v option" where
  "alGet al k = map_of al k"

fun alSet :: "'k \<Rightarrow> 'v \<Rightarrow> ('k \<times> 'v) list \<Rightarrow> ('k \<times> 'v) list" where
  "alSet k v [] = [(k, v)]"
| "alSet k v ((k', v') # al) = (if k' = k then (k, v) # al else (k', v') # alSet k v al)"

definition alBump :: "'k \<Rightarrow> nat \<Rightarrow> ('k \<times> nat) list \<Rightarrow> ('k \<times> nat) list" where
  "alBump k d al = alSet k ((case alGet al k of None \<Rightarrow> 0 | Some n \<Rightarrow> n) + d) al"

text \<open>
  \<open>o[k] = (o[k] ?? 0) + 1\<close> on an object literal \<open>{}\<close>, as \<open>clusterRuns\<close>
  counts. Such an object inherits from \<open>Object.prototype\<close>. The key
  \<open>__proto__\<close> is an accessor there: reading it gives an object, the sum is a string,
  and the setter ignores a string, so the statement stores nothing and the key never
  becomes an entry. A key that names an inherited method (\<open>constructor\<close>,
  \<open>toString\<close>, \<open>valueOf\<close>, \<open>hasOwnProperty\<close>, ...) becomes an entry
  like any other key, but the value stored for it is a string (the text of the method
  followed by 1s), not a number; here the entry holds the number of increments, so
  what the code derives from the value of such an entry (labels, weights, comparisons)
  is outside this model. The entries themselves, and every other key, are as in the code.
\<close>

definition objBump :: "string \<Rightarrow> nat \<Rightarrow> (string \<times> nat) list \<Rightarrow> (string \<times> nat) list" where
  "objBump k d al = (if k = ''__proto__'' then al else alBump k d al)"

definition isArrayIndex :: "string \<Rightarrow> bool" where
  "isArrayIndex s = (s \<noteq> [] \<and> list_all isDigit s \<and> (s = ''0'' \<or> hd s \<noteq> CHR ''0'')
                     \<and> length s \<le> 10 \<and> parseNat s < 4294967295)"

definition objEntries :: "(string \<times> 'v) list \<Rightarrow> (string \<times> 'v) list" where
  "objEntries al = sort_key (\<lambda>kv. parseNat (fst kv)) (filter (\<lambda>kv. isArrayIndex (fst kv)) al)
                   @ filter (\<lambda>kv. \<not> isArrayIndex (fst kv)) al"

section \<open>Input data: doctor reports and run-log events\<close>

datatype Severity = SevInfo | SevWarn | SevBad

datatype GraphHealthStatus = StGood | StWarn | StBad | StUnknown

text \<open>
  A field that the code tests for presence (\<open>??\<close>, \<open>?.\<close>, \<open>typeof\<close>) is an
  option, also where the TypeScript type declares it required.
\<close>

record Finding =
  f_code :: string
  f_severity :: Severity
  f_penalty :: "int option"
  f_what :: string

record FactsResult =
  fa_version :: "string option"
  fa_version_info :: "int list option"
  fa_prefix :: "string option"
  fa_base_prefix :: "string option"
  fa_bits :: "int option"

record DoctorLiteReport =
  r_pythonPath :: string
  r_ranAt :: "string option"
  r_status :: "GraphHealthStatus option"
  r_score :: "int option"
  r_facts :: "FactsResult option"
  r_findings :: "Finding list"

record Requirements =
  rq_python :: "string option"
  rq_packages :: "string list option"
  rq_features :: "string list option"
  rq_tags :: "string list option"
  rq_requireX64 :: "bool option"

record TaskInfo =
  t_name :: string
  t_command :: string
  t_requirements :: "Requirements option"

record Selected =
  sel_pythonPath :: string
  sel_score :: "int option"
  sel_status :: "GraphHealthStatus option"

record Outcome =
  oc_ok :: bool
  oc_exitCode :: "int option"
  oc_errorClass :: "string option"
  oc_stderrSnippet :: "string option"

record Doctor =
  d_dominantIssue :: "string option"

record RunLogEventV1 =
  runId :: string
  run_at :: string
  cwd :: "string option"
  task :: TaskInfo
  selected :: Selected
  outcome :: Outcome
  doctor :: "Doctor option"

section \<open>taskCluster.ts\<close>

text \<open>
  \<open>createHash("sha256").update(s).digest("hex")\<close> comes from the platform library. It is
  a parameter \<open>H\<close> of every function that hashes: nothing is assumed about it.
\<close>

record TaskSignature =
  sigId :: string
  sig_name :: string
  sig_command :: string
  requirementsKey :: string

record TaskCluster =
  c_sig :: TaskSignature
  c_runs :: nat
  c_ok :: nat
  c_fail :: nat
  c_successRate :: rat
  c_lastAt :: string
  dominantFailure :: "string option"
  failureCounts :: "(string \<times> nat) list"
  envCounts :: "(string \<times> nat) list"
  envFailCounts :: "(string \<times> nat) list"
  envOkCounts :: "(string \<times> nat) list"

definition sha16 :: "(string \<Rightarrow> string) \<Rightarrow> string \<Rightarrow> string" where
  "sha16 H s = take 16 (H s)"

definition normCmd :: "string \<Rightarrow> string" where
  "normCmd cmd = toLowerCase (collapseWs (trim cmd))"

definition orEmpty :: "'a list option \<Rightarrow> 'a list" where
  "orEmpty x = (case x of None \<Rightarrow> [] | Some v \<Rightarrow> v)"

definition normList :: "string list option \<Rightarrow> string" where
  "normList xs = join '','' (sort (map toLowerCase (orEmpty xs)))"

definition normReq :: "Requirements option \<Rightarrow> string" where
  "normReq req =
     (case req of
        None \<Rightarrow> []
      | Some q \<Rightarrow>
          ''py='' @ toLowerCase (orEmpty (rq_python q))
          @ ''|pkgs='' @ normList (rq_packages q)
          @ ''|feat='' @ normList (rq_features q)
          @ ''|tags='' @ normList (rq_tags q)
          @ ''|'' @ (if rq_requireX64 q = Some True then ''x64'' else []))"

definition signatureForRun :: "(string \<Rightarrow> string) \<Rightarrow> RunLogEventV1 \<Rightarrow> TaskSignature" where
  "signatureForRun H run =
     (let command = normCmd (t_command (task run));
          rk = normReq (t_requirements (task run));
          base = t_name (task run) @ ''|'' @ command @ ''|'' @ rk
      in \<lparr> sigId = ''task_'' @ sha16 H base, sig_name = t_name (task run),
           sig_command = command, requirementsKey = rk \<rparr>)"

definition failureCode :: "RunLogEventV1 \<Rightarrow> string" where
  "failureCode r =
     (case (case doctor r of None \<Rightarrow> None | Some d \<Rightarrow> d_dominantIssue d) of
        Some c \<Rightarrow> c
      | None \<Rightarrow> (case oc_errorClass (outcome r) of Some c \<Rightarrow> c | None \<Rightarrow> ''RUN_FAILED''))"

definition newCluster :: "TaskSignature \<Rightarrow> string \<Rightarrow> TaskCluster" where
  "newCluster sg t =
     \<lparr> c_sig = sg, c_runs = 0, c_ok = 0, c_fail = 0, c_successRate = 0, c_lastAt = t,
       dominantFailure = None, failureCounts = [], envCounts = [], envFailCounts = [],
       envOkCounts = [] \<rparr>"

text \<open>One iteration of the first loop of \<open>clusterRuns\<close>.\<close>

definition addRun :: "(string \<Rightarrow> string) \<Rightarrow> RunLogEventV1
    \<Rightarrow> (string \<times> TaskCluster) list \<Rightarrow> (string \<times> TaskCluster) list" where
  "addRun H r m =
     (let sg = signatureForRun H r;
          key = sigId sg;
          c0 = (case alGet m key of None \<Rightarrow> newCluster sg (run_at r) | Some c \<Rightarrow> c);
          c1 = c0\<lparr> c_runs := c_runs c0 + 1,
                   c_ok := (if oc_ok (outcome r) then c_ok c0 + 1 else c_ok c0),
                   c_fail := (if oc_ok (outcome r) then c_fail c0 else c_fail c0 + 1),
                   c_lastAt := (if run_at r > c_lastAt c0 then run_at r else c_lastAt c0) \<rparr>;
          py = sel_pythonPath (selected r);
          c2 = c1\<lparr> envCounts := objBump py 1 (envCounts c1) \<rparr>;
          c3 = (if oc_ok (outcome r)
                then c2\<lparr> envOkCounts := objBump py 1 (envOkCounts c2) \<rparr>
                else c2\<lparr> failureCounts := objBump (failureCode r) 1 (failureCounts c2),
                         envFailCounts := objBump py 1 (envFailCounts c2) \<rparr>)
      in alSet key c3 m)"

fun bestEntry :: "(string \<times> nat) option \<Rightarrow> (string \<times> nat) list \<Rightarrow> (string \<times> nat) option" where
  "bestEntry best [] = best"
| "bestEntry best ((code, cnt) # es) =
     bestEntry (case best of
                  None \<Rightarrow> Some (code, cnt)
                | Some (bc, bn) \<Rightarrow> if cnt > bn then Some (code, cnt) else best) es"

text \<open>The second loop of \<open>clusterRuns\<close>: the derived fields.\<close>

definition deriveFields :: "TaskCluster \<Rightarrow> TaskCluster" where
  "deriveFields c =
     c\<lparr> c_successRate := (if c_runs c \<noteq> 0 then of_nat (c_ok c) / of_nat (c_runs c) else 0),
        dominantFailure := (case bestEntry None (objEntries (failureCounts c)) of
                              None \<Rightarrow> dominantFailure c
                            | Some (code, cnt) \<Rightarrow> Some code) \<rparr>"

definition clusterRuns :: "(string \<Rightarrow> string) \<Rightarrow> RunLogEventV1 list \<Rightarrow> TaskCluster list" where
  "clusterRuns H rs =
     sort_key (\<lambda>c. - int (c_runs c)) (map (deriveFields \<circ> snd) (fold (addRun H) rs []))"

definition isFlaky :: "TaskCluster \<Rightarrow> bool" where
  "isFlaky cluster =
     (if c_ok cluster = 0 \<or> c_fail cluster = 0 then False
      else c_successRate cluster > 2 / 10 \<and> c_successRate cluster < 95 / 100)"

definition countOf :: "(string \<times> nat) list \<Rightarrow> string \<Rightarrow> nat" where
  "countOf al k = (case alGet al k of None \<Rightarrow> 0 | Some n \<Rightarrow> n)"

definition isEnvDependentFlaky :: "TaskCluster \<Rightarrow> bool" where
  "isEnvDependentFlaky cluster =
     (let envs = map fst (objEntries (envCounts cluster))
      in if length envs < 2 then False
         else list_ex (\<lambda>py. countOf (envOkCounts cluster) py > 0
                            \<and> countOf (envFailCounts cluster) py = 0) envs
              \<and> list_ex (\<lambda>py. countOf (envFailCounts cluster) py > 0
                              \<and> countOf (envOkCounts cluster) py = 0) envs)"

record FailingEnv =
  fe_pythonPath :: string
  fe_failCount :: nat
  fe_totalCount :: nat

text \<open>
  \<open>getFailingEnvs\<close>; the \<open>failRate\<close> field, a quotient of the two counts that no
  caller reads, is left out.
\<close>

definition getFailingEnvs :: "TaskCluster \<Rightarrow> int \<Rightarrow> FailingEnv list" where
  "getFailingEnvs cluster limit =
     slice0 limit
       (sort_key (\<lambda>e. - int (fe_failCount e))
          (map (\<lambda>(py, failCount).
                  \<lparr> fe_pythonPath = py, fe_failCount = failCount,
                    fe_totalCount = (case alGet (envCounts cluster) py of
                                       None \<Rightarrow> failCount | Some n \<Rightarrow> n) \<rparr>)
               (objEntries (envFailCounts cluster))))"

section \<open>mapRender.ts: the graph\<close>

datatype NodeType = Venv | Base | Task | Artifact

datatype EdgeType =
  USES_BASE | CREATED_FROM | ROUTES_TASK_TO | FAILED_RUN | SHARES_WHEELHOUSE | SHADOWS_PATH

datatype InsightSeverity = Low | Medium | High

datatype TaskMode = ModeNone | ModeRuns | ModeClustered

datatype Format = FmtJson | FmtMermaid | FmtBoth

text \<open>The values of a \<open>meta\<close> bag; \<open>null\<close> and \<open>undefined\<close> are both \<open>MNone\<close>.\<close>

datatype MetaVal = MStr string | MNum int | MRat rat | MStrs "string list" | MNone

type_synonym Meta = "(string \<times> MetaVal) list"

definition optStr :: "string option \<Rightarrow> MetaVal" where
  "optStr x = (case x of None \<Rightarrow> MNone | Some s \<Rightarrow> MStr s)"

record GraphIssue =
  gi_code :: string
  gi_severity :: Severity
  gi_message :: string

record PythonInfo =
  py_version :: "string option"
  py_impl :: "string option"
  py_arch :: "string option"

record Health =
  h_status :: GraphHealthStatus
  h_score :: "int option"
  h_issues :: "GraphIssue list option"

record Caps =
  cap_features :: "string list"
  cap_tags :: "string list"

record Fingerprints =
  fp_env :: "string option"
  fp_python :: "string option"

record GraphNode =
  n_id :: string
  n_type :: NodeType
  n_label :: string
  n_path :: "string option"
  n_python :: "PythonInfo option"
  n_health :: "Health option"
  n_caps :: "Caps option"
  n_fingerprints :: "Fingerprints option"
  n_lastSeenAt :: "string option"

record GraphEdge =
  e_id :: string
  e_from :: string
  e_to :: string
  e_type :: EdgeType
  e_label :: "string option"
  e_weight :: "nat option"
  e_meta :: "Meta option"

record TopIssue =
  ti_code :: string
  ti_count :: nat
  ti_hint :: string

record GraphSummary =
  envCount :: nat
  baseCount :: nat
  taskCount :: nat
  healthy :: nat
  warning :: nat
  broken :: nat
  runsPassed :: nat
  runsFailed :: nat
  topIssues :: "TopIssue list"

text \<open>What \<open>node:os\<close> reports about the machine: \<open>platform()\<close>, \<open>arch()\<close>, \<open>hostname()\<close>.\<close>

record Host =
  host_os :: string
  host_arch :: string
  host_hostname :: string

record GraphJSONv1 =
  g_version :: string
  generatedAt :: string
  g_host :: Host
  summary :: GraphSummary
  nodes :: "GraphNode list"
  edges :: "GraphEdge list"

record MapInsight =
  i_severity :: InsightSeverity
  i_text :: string
  i_meta :: "Meta option"

record ReportFilter =
  minScore :: "int option"
  codes :: "string list option"
  pathsUnder :: "string option"

record MapRenderOptions =
  format :: "Format option"
  filter_opt :: "ReportFilter option"
  includeBaseSubgraphs :: "bool option"
  includeHotEdgeLabels :: "bool option"
  maxTopIssues :: "int option"
  taskMode :: "TaskMode option"

record MapRenderResult =
  graph :: GraphJSONv1
  mermaid :: "string option"
  insights :: "MapInsight list"

subsection \<open>Helpers\<close>

text \<open>
  Glyph literals of the source lie outside the Latin-1 range; they are written as the
  UTF-8 bytes of the glyph.
\<close>

definition bullet :: string where
  "bullet = [CHR 0x20, CHR 0xE2, CHR 0x80, CHR 0xA2, CHR 0x20]"

definition emDash :: string where
  "emDash = [CHR 0xE2, CHR 0x80, CHR 0x94]"

definition enDash :: string where
  "enDash = [CHR 0xE2, CHR 0x80, CHR 0x93]"

definition stableId :: "(string \<Rightarrow> string) \<Rightarrow> string \<Rightarrow> string \<Rightarrow> string" where
  "stableId H pre input = pre @ '':'' @ take 16 (H input)"

definition normPath :: "string \<Rightarrow> string \<Rightarrow> string" where
  "normPath plat p = (if p = [] then [] else if plat = ''win32'' then toLowerCase p else p)"

definition pickArch :: "FactsResult option \<Rightarrow> string option" where
  "pickArch facts =
     (case (case facts of None \<Rightarrow> None | Some f \<Rightarrow> fa_bits f) of
        None \<Rightarrow> None
      | Some b \<Rightarrow> if b = 64 then Some ''x86_64'' else if b = 32 then Some ''x86'' else None)"

definition statusFromReport :: "DoctorLiteReport \<Rightarrow> GraphHealthStatus" where
  "statusFromReport r = (case r_status r of None \<Rightarrow> StUnknown | Some s \<Rightarrow> s)"

definition issuesFromFindings :: "Finding list \<Rightarrow> GraphIssue list" where
  "issuesFromFindings fs =
     map (\<lambda>f. \<lparr> gi_code = f_code f, gi_severity = f_severity f, gi_message = f_what f \<rparr>) fs"

definition startsWith :: "string \<Rightarrow> string \<Rightarrow> bool" where
  "startsWith s pre = (take (length pre) s = pre)"

definition hasCode :: "Finding list \<Rightarrow> string \<Rightarrow> bool" where
  "hasCode fs c = list_ex (\<lambda>f. f_code f = c) fs"

definition shouldIncludeReport :: "string \<Rightarrow> DoctorLiteReport \<Rightarrow> ReportFilter \<Rightarrow> bool" where
  "shouldIncludeReport plat r flt =
     (if (case minScore flt of
            None \<Rightarrow> False
          | Some m \<Rightarrow> (case r_score r of None \<Rightarrow> 0 | Some s \<Rightarrow> s) < m) then False
      else if (case pathsUnder flt of
                 None \<Rightarrow> False
               | Some und \<Rightarrow> und \<noteq> []
                   \<and> \<not> startsWith (normPath plat (r_pythonPath r)) (normPath plat und))
           then False
      else if (case codes flt of
                 None \<Rightarrow> False
               | Some cs \<Rightarrow> cs \<noteq> [] \<and> \<not> list_ex (hasCode (r_findings r)) cs) then False
      else True)"

definition hintForIssue :: "string \<Rightarrow> string" where
  "hintForIssue c =
     (if c = ''SSL_BROKEN'' then ''Fix base Python / OpenSSL; this blocks installs and HTTPS.''
      else if c = ''DLL_LOAD_FAIL'' \<or> c = ''ABI_MISMATCH''
        then ''Native deps mismatch; recreate venv with compatible Python + wheels.''
      else if c = ''USER_SITE_LEAK'' \<or> c = ''PYTHONPATH_INJECTED''
        then ''Path leakage; disable user-site, remove PYTHONPATH, prefer editable installs.''
      else if c = ''PIP_CHECK_FAIL''
        then ''Dependency conflicts; pip check then reinstall or recreate venv.''
      else if c = ''PYVENV_CFG_INVALID''
        then ''Stale pyvenv.cfg; venv likely moved'' @ emDash @ ''recreate it.''
      else ''Investigate and apply the doctor fix plan; recreating the venv is often fastest.'')"

definition emojiForIssue :: "string \<Rightarrow> string" where
  "emojiForIssue c =
     (if c = ''SSL_BROKEN'' then [CHR 0xF0, CHR 0x9F, CHR 0x94, CHR 0x92]
      else if c = ''CERT_STORE_FAIL'' then [CHR 0xF0, CHR 0x9F, CHR 0xAA, CHR 0xAA]
      else if c = ''DLL_LOAD_FAIL'' then [CHR 0xF0, CHR 0x9F, CHR 0xA7, CHR 0xA9]
      else if c = ''ABI_MISMATCH'' then [CHR 0xE2, CHR 0x9A, CHR 0x99, CHR 0xEF, CHR 0xB8, CHR 0x8F]
      else if c = ''USER_SITE_LEAK''
        then [CHR 0xF0, CHR 0x9F, CHR 0x95, CHR 0xB3, CHR 0xEF, CHR 0xB8, CHR 0x8F]
      else if c = ''PYTHONPATH_INJECTED'' then [CHR 0xF0, CHR 0x9F, CHR 0xA7, CHR 0xB5]
      else if c = ''PIP_CHECK_FAIL'' then [CHR 0xF0, CHR 0x9F, CHR 0xA7, CHR 0xA8]
      else if c = ''PIP_MISSING'' then [CHR 0xF0, CHR 0x9F, CHR 0x93, CHR 0xA6]
      else if c = ''ARCH_MISMATCH''
        then [CHR 0xF0, CHR 0x9F, CHR 0x8F, CHR 0x97, CHR 0xEF, CHR 0xB8, CHR 0x8F]
      else if c = ''PYVENV_CFG_INVALID'' then [CHR 0xF0, CHR 0x9F, CHR 0xA7, CHR 0xB1]
      else [CHR 0xE2, CHR 0x9D, CHR 0x97])"

definition safeMermaidId :: "(string \<Rightarrow> string) \<Rightarrow> string \<Rightarrow> string" where
  "safeMermaidId H nodeId = ''n_'' @ take 10 (H nodeId)"

definition isSlash :: "char \<Rightarrow> bool" where
  "isSlash c = (c = CHR ''/'' \<or> c = CHR 0x5C)"

definition guessEnvLabel :: "string \<Rightarrow> string" where
  "guessEnvLabel pythonPath =
     (let parts = tokens isSlash pythonPath
      in if parts \<noteq> [] then parts ! (length parts - 2) else pythonPath)"

definition countTopIssues :: "DoctorLiteReport list \<Rightarrow> int \<Rightarrow> TopIssue list" where
  "countTopIssues reports maxTop =
     (let counts = fold (\<lambda>r m. fold (\<lambda>f m'. if f_severity f = SevInfo then m'
                                             else alBump (f_code f) 1 m') (r_findings r) m)
                        reports []
      in map (\<lambda>(c, n). \<lparr> ti_code = c, ti_count = n, ti_hint = hintForIssue c \<rparr>)
             (slice0 maxTop (sort_key (\<lambda>kv. - int (snd kv)) counts)))"

definition dominantIssue :: "Finding list \<Rightarrow> string option" where
  "dominantIssue findings =
     (let nonInfo = filter (\<lambda>f. f_severity f \<noteq> SevInfo) findings
      in case sort_key (\<lambda>f. - (case f_penalty f of None \<Rightarrow> 0 | Some p \<Rightarrow> p)) nonInfo of
           [] \<Rightarrow> None
         | f # _ \<Rightarrow> Some (f_code f))"

definition deriveBaseKey :: "DoctorLiteReport \<Rightarrow> string" where
  "deriveBaseKey r =
     (let basePrefix = (case r_facts r of
                          None \<Rightarrow> []
                        | Some f \<Rightarrow> orEmpty (fa_base_prefix f));
          prefix = (case r_facts r of None \<Rightarrow> [] | Some f \<Rightarrow> orEmpty (fa_prefix f))
      in if basePrefix \<noteq> [] then basePrefix
         else if prefix \<noteq> [] then prefix
         else r_pythonPath r)"

text \<open>
  \<open>v.match(/(\d+)\.(\d+)\.(\d+)/)\<close>: the first two groups of the leftmost match. A
  greedy \<open>\d+\<close> that is followed by a dot takes the whole run of digits.
\<close>

definition matchVersionAt :: "string \<Rightarrow> (string \<times> string) option" where
  "matchVersionAt s =
     (let d1 = takeWhile isDigit s
      in if d1 = [] then None
         else case dropWhile isDigit s of
                [] \<Rightarrow> None
              | c # t \<Rightarrow>
                  if c \<noteq> CHR ''.'' then None
                  else let d2 = takeWhile isDigit t
                       in if d2 = [] then None
                          else case dropWhile isDigit t of
                                 [] \<Rightarrow> None
                               | c' # u \<Rightarrow>
                                   if c' = CHR ''.'' \<and> u \<noteq> [] \<and> isDigit (hd u)
                                   then Some (d1, d2) else None)"

fun matchVersion :: "string \<Rightarrow> (string \<times> string) option" where
  "matchVersion [] = None"
| "matchVersion (c # cs) =
     (case matchVersionAt (c # cs) of Some m \<Rightarrow> Some m | None \<Rightarrow> matchVersion cs)"

definition derivePyVersion :: "DoctorLiteReport \<Rightarrow> string option" where
  "derivePyVersion r =
     (case (case r_facts r of None \<Rightarrow> None | Some f \<Rightarrow> fa_version_info f) of
        Some (a # b # _) \<Rightarrow> Some (showInt a @ ''.'' @ showInt b)
      | _ \<Rightarrow> (case (case r_facts r of None \<Rightarrow> None | Some f \<Rightarrow> fa_version f) of
                None \<Rightarrow> None
              | Some v \<Rightarrow> (case matchVersion v of
                             None \<Rightarrow> None
                           | Some (m1, m2) \<Rightarrow> Some (m1 @ ''.'' @ m2))))"

definition deriveImpl :: string where
  "deriveImpl = ''CPython''"

definition replaceNewlines :: "string \<Rightarrow> string" where
  "replaceNewlines s = concat (map (\<lambda>c. if c = CHR 0x0A then bullet else [c]) s)"

definition nodeLabelForBase :: "string \<Rightarrow> string option \<Rightarrow> string option \<Rightarrow> string" where
  "nodeLabelForBase baseKey pyVersion arch =
     ''Base: '' @ (case pyVersion of None \<Rightarrow> ''py?'' | Some v \<Rightarrow> v) @ '' ''
     @ orEmpty arch @ [CHR 0x0A] @ baseKey"

definition statusOf :: "GraphNode \<Rightarrow> GraphHealthStatus option" where
  "statusOf n = (case n_health n of None \<Rightarrow> None | Some h \<Rightarrow> Some (h_status h))"

definition scoreOf :: "GraphNode \<Rightarrow> int option" where
  "scoreOf n = (case n_health n of None \<Rightarrow> None | Some h \<Rightarrow> h_score h)"

definition countStatus :: "GraphNode list \<Rightarrow> GraphHealthStatus \<Rightarrow> nat" where
  "countStatus ns s = length (filter (\<lambda>n. n_type n = Venv \<and> statusOf n = Some s) ns)"

subsection \<open>Building nodes and edges\<close>

text \<open>
  The mutable locals of \<open>mapRender\<close>. \<open>nowIso()\<close> reads the wall clock: \<open>clk i\<close> is
  what the \<open>i\<close>-th reading of one call returns, and \<open>ticks\<close> counts the readings made.
\<close>

record Builder =
  b_nodes :: "GraphNode list"
  b_edges :: "GraphEdge list"
  baseIdByKey :: "string \<Rightarrow> string option"
  envIdByPyPath :: "string \<Rightarrow> string option"
  nodeIndex :: "string \<Rightarrow> GraphNode option"
  ticks :: nat

definition emptyBuilder :: Builder where
  "emptyBuilder = \<lparr> b_nodes = [], b_edges = [], baseIdByKey = Map.empty,
                     envIdByPyPath = Map.empty, nodeIndex = Map.empty, ticks = 0 \<rparr>"

definition pushNode :: "GraphNode \<Rightarrow> Builder \<Rightarrow> Builder" where
  "pushNode n st = st\<lparr> b_nodes := b_nodes st @ [n] \<rparr>"

definition pushEdge :: "GraphEdge \<Rightarrow> Builder \<Rightarrow> Builder" where
  "pushEdge e st = st\<lparr> b_edges := b_edges st @ [e] \<rparr>"

definition baseNode :: "(string \<Rightarrow> string) \<Rightarrow> string \<Rightarrow> string \<Rightarrow> string \<Rightarrow> string option
    \<Rightarrow> string option \<Rightarrow> string \<Rightarrow> GraphNode" where
  "baseNode H ident keyNorm baseKey pyVersion arch now =
     \<lparr> n_id = ident, n_type = Base,
       n_label = replaceNewlines (nodeLabelForBase baseKey pyVersion arch),
       n_path = Some baseKey,
       n_python = Some \<lparr> py_version = pyVersion, py_impl = Some deriveImpl, py_arch = arch \<rparr>,
       n_health = Some \<lparr> h_status = StUnknown, h_score = None, h_issues = None \<rparr>,
       n_caps = None,
       n_fingerprints = Some \<lparr> fp_env = None, fp_python = Some (''sha256:'' @ take 24 (H keyNorm)) \<rparr>,
       n_lastSeenAt = Some now \<rparr>"

text \<open>The helper \<open>getOrCreateBaseNode\<close>; \<open>!id\<close> also holds of an empty string.\<close>

definition getOrCreateBaseNode :: "(string \<Rightarrow> string) \<Rightarrow> string \<Rightarrow> (nat \<Rightarrow> string) \<Rightarrow> string
    \<Rightarrow> string option \<Rightarrow> string option \<Rightarrow> Builder \<Rightarrow> string \<times> Builder" where
  "getOrCreateBaseNode H plat clk baseKey pyVersion arch st =
     (let keyNorm = normPath plat baseKey
      in case (case baseIdByKey st keyNorm of
                 None \<Rightarrow> None
               | Some i \<Rightarrow> if i = [] then None else Some i) of
           Some i \<Rightarrow> (i, st)
         | None \<Rightarrow>
             (let ident = stableId H ''base'' keyNorm;
                  st1 = st\<lparr> baseIdByKey := (baseIdByKey st)(keyNorm \<mapsto> ident) \<rparr>;
                  st2 = pushNode (baseNode H ident keyNorm baseKey pyVersion arch (clk (ticks st1))) st1
              in (ident, st2\<lparr> ticks := ticks st2 + 1 \<rparr>)))"

definition envFeatures :: "Finding list \<Rightarrow> string list" where
  "envFeatures fs =
     [if hasCode fs ''SSL_BROKEN'' then ''ssl:broken'' else ''ssl:ok'',
      if hasCode fs ''USER_SITE_LEAK'' then ''usersite:leak'' else ''usersite:clean'',
      if hasCode fs ''PYTHONPATH_INJECTED'' then ''pythonpath:set'' else ''pythonpath:clean'']"

definition envNode :: "(string \<Rightarrow> string) \<Rightarrow> string \<Rightarrow> DoctorLiteReport \<Rightarrow> string \<Rightarrow> GraphNode" where
  "envNode H plat r lastSeen =
     (let pyPath = normPath plat (r_pythonPath r);
          pyVersion = derivePyVersion r;
          dominant = dominantIssue (r_findings r)
      in \<lparr> n_id = stableId H ''env'' pyPath, n_type = Venv,
           n_label = guessEnvLabel (r_pythonPath r),
           n_path = Some (r_pythonPath r),
           n_python = Some \<lparr> py_version = pyVersion, py_impl = Some deriveImpl,
                             py_arch = pickArch (r_facts r) \<rparr>,
           n_health = Some \<lparr> h_status = statusFromReport r, h_score = r_score r,
                             h_issues = Some (issuesFromFindings (r_findings r)) \<rparr>,
           n_caps = Some \<lparr> cap_features = envFeatures (r_findings r), cap_tags = [] \<rparr>,
           n_fingerprints = Some \<lparr> fp_env = Some (''sha256:'' @ take 24
               (H (pyPath @ ''|'' @ (case pyVersion of None \<Rightarrow> ''undefined'' | Some v \<Rightarrow> v)
                   @ ''|'' @ orEmpty dominant))), fp_python = None \<rparr>,
           n_lastSeenAt = Some lastSeen \<rparr>)"

definition usesBaseEdge :: "(string \<Rightarrow> string) \<Rightarrow> string \<Rightarrow> string \<Rightarrow> string option \<Rightarrow> GraphEdge" where
  "usesBaseEdge H baseId envId dominant =
     \<lparr> e_id = stableId H ''e'' (baseId @ ''->'' @ envId), e_from = baseId, e_to = envId,
       e_type = USES_BASE, e_label = None, e_weight = Some 1,
       e_meta = Some [(''dominantIssue'', optStr dominant)] \<rparr>"

text \<open>One iteration of the loop over the included reports.\<close>

definition addReport :: "(string \<Rightarrow> string) \<Rightarrow> string \<Rightarrow> (nat \<Rightarrow> string) \<Rightarrow> DoctorLiteReport
    \<Rightarrow> Builder \<Rightarrow> Builder" where
  "addReport H plat clk r st =
     (let pyPath = normPath plat (r_pythonPath r);
          envId = stableId H ''env'' pyPath;
          st1 = st\<lparr> envIdByPyPath := (envIdByPyPath st)(pyPath \<mapsto> envId) \<rparr>;
          st2 = (case r_ranAt r of
                   Some t \<Rightarrow> pushNode (envNode H plat r t) st1
                 | None \<Rightarrow> (pushNode (envNode H plat r (clk (ticks st1))) st1)
                              \<lparr> ticks := ticks st1 + 1 \<rparr>);
          (baseId, st3) = getOrCreateBaseNode H plat clk (deriveBaseKey r) (derivePyVersion r)
                            (pickArch (r_facts r)) st2
      in pushEdge (usesBaseEdge H baseId envId (dominantIssue (r_findings r))) st3)"

subsection \<open>Base health roll-up\<close>

definition childNodesOf :: "GraphNode list \<Rightarrow> GraphEdge list \<Rightarrow> string \<Rightarrow> GraphNode list" where
  "childNodesOf ns es baseId =
     (let childEdges = filter (\<lambda>e. e_type e = USES_BASE \<and> e_from e = baseId) es
      in filter (\<lambda>n. list_ex (\<lambda>e. e_to e = n_id n) childEdges) ns)"

definition worstStatus :: "GraphNode list \<Rightarrow> GraphHealthStatus" where
  "worstStatus childNodes =
     (if list_ex (\<lambda>n. statusOf n = Some StBad) childNodes then StBad
      else if list_ex (\<lambda>n. statusOf n = Some StWarn) childNodes then StWarn
      else if list_ex (\<lambda>n. statusOf n = Some StGood) childNodes then StGood
      else StUnknown)"

definition medianScore :: "GraphNode list \<Rightarrow> int option" where
  "medianScore childNodes =
     (let scores = sort (List.map_filter scoreOf childNodes)
      in if scores \<noteq> [] then Some (scores ! (length scores div 2)) else None)"

text \<open>The body of the roll-up loop for one base node, given the node array as it is then.\<close>

definition rollupBase :: "GraphNode list \<Rightarrow> GraphEdge list \<Rightarrow> GraphNode \<Rightarrow> GraphNode" where
  "rollupBase ns es base =
     (let childNodes = childNodesOf ns es (n_id base)
      in if childNodes = [] then base
         else base\<lparr> n_health := Some \<lparr> h_status = worstStatus childNodes,
                                        h_score = medianScore childNodes, h_issues = None \<rparr> \<rparr>)"

text \<open>
  The loop runs over the base nodes found when it starts and assigns to each node
  object in place: position \<open>i\<close> of the array is updated.
\<close>

definition rollup :: "GraphNode list \<Rightarrow> GraphEdge list \<Rightarrow> GraphNode list" where
  "rollup ns es =
     fold (\<lambda>i cur. cur[i := rollupBase cur es (cur ! i)])
          (filter (\<lambda>i. n_type (ns ! i) = Base) [0..<length ns]) ns"

definition indexNodes :: "GraphNode list \<Rightarrow> (string \<Rightarrow> GraphNode option)" where
  "indexNodes ns = fold (\<lambda>n m. m(n_id n \<mapsto> n)) ns Map.empty"

subsection \<open>Task nodes and edges\<close>

definition roundHalfUp :: "rat \<Rightarrow> int" where
  "roundHalfUp x = \<lfloor>x + 1 / 2\<rfloor>"

definition setIndex :: "GraphNode \<Rightarrow> Builder \<Rightarrow> Builder" where
  "setIndex n st = st\<lparr> nodeIndex := (nodeIndex st)(n_id n \<mapsto> n) \<rparr>"

definition resolveEnvId :: "(string \<Rightarrow> string) \<Rightarrow> string \<Rightarrow> Builder \<Rightarrow> string" where
  "resolveEnvId H envPy st =
     (case envIdByPyPath st envPy of Some i \<Rightarrow> i | None \<Rightarrow> stableId H ''env'' envPy)"

text \<open>"Ensure env node exists even if missing from reports".\<close>

definition ensureEnvNode :: "string \<Rightarrow> string \<Rightarrow> GraphNode \<Rightarrow> Builder \<Rightarrow> Builder" where
  "ensureEnvNode envPy envId newEnvNode st =
     (if nodeIndex st envId = None
      then (setIndex newEnvNode (pushNode newEnvNode st))
             \<lparr> envIdByPyPath := (envIdByPyPath st)(envPy \<mapsto> envId) \<rparr>
      else st)"

definition clusterTaskNode :: "TaskCluster \<Rightarrow> GraphNode" where
  "clusterTaskNode c =
     \<lparr> n_id = ''task:'' @ sigId (c_sig c), n_type = Task, n_label = sig_name (c_sig c),
       n_path = None, n_python = None,
       n_health = Some
         \<lparr> h_status = (if c_fail c = 0 then StGood else if c_ok c = 0 then StBad else StWarn),
           h_score = Some (roundHalfUp (100 * c_successRate c)),
           h_issues = Some
             (case dominantFailure c of
                None \<Rightarrow> []
              | Some d \<Rightarrow>
                  if d = [] then []
                  else [\<lparr> gi_code = d,
                          gi_severity = (if c_fail c > 0 then SevWarn else SevInfo),
                          gi_message = ''dominant failure (''
                            @ (case alGet (failureCounts c) d of
                                 None \<Rightarrow> ''undefined'' | Some k \<Rightarrow> showNat k) @ '')'' \<rparr>]) \<rparr>,
       n_caps = Some \<lparr> cap_features =
                        [''runs:'' @ showNat (c_runs c), ''ok:'' @ showNat (c_ok c),
                         ''fail:'' @ showNat (c_fail c),
                         if isFlaky c then ''flaky:true'' else ''flaky:false'',
                         if isEnvDependentFlaky c then ''env-flaky:true'' else ''env-flaky:false''],
                      cap_tags = [] \<rparr>,
       n_fingerprints = None, n_lastSeenAt = Some (c_lastAt c) \<rparr>"

definition unknownEnvNode :: "string \<Rightarrow> string \<Rightarrow> Health \<Rightarrow> string \<Rightarrow> GraphNode" where
  "unknownEnvNode envId pyPath hl lastSeen =
     \<lparr> n_id = envId, n_type = Venv, n_label = guessEnvLabel pyPath, n_path = Some pyPath,
       n_python = None, n_health = Some hl, n_caps = None, n_fingerprints = None,
       n_lastSeenAt = Some lastSeen \<rparr>"

text \<open>The inner loop of clustered mode: one environment of one cluster.\<close>

definition addClusterEnv :: "(string \<Rightarrow> string) \<Rightarrow> string \<Rightarrow> TaskCluster \<Rightarrow> string \<times> nat
    \<Rightarrow> Builder \<Rightarrow> Builder" where
  "addClusterEnv H plat c entry st =
     (let pyPath = fst entry; cnt = snd entry;
          taskId = ''task:'' @ sigId (c_sig c);
          envPy = normPath plat pyPath;
          envId = resolveEnvId H envPy st;
          st1 = ensureEnvNode envPy envId
                  (unknownEnvNode envId pyPath
                     \<lparr> h_status = StUnknown, h_score = None, h_issues = None \<rparr> (c_lastAt c)) st;
          st2 = pushEdge
                  \<lparr> e_id = stableId H ''e'' (taskId @ ''->'' @ envId @ '':route''),
                    e_from = taskId, e_to = envId, e_type = ROUTES_TASK_TO,
                    e_label = Some (''x'' @ showNat cnt), e_weight = Some cnt,
                    e_meta = Some [(''taskSig'', MStr (sigId (c_sig c)))] \<rparr> st1;
          failCount = countOf (envFailCounts c) pyPath
      in if failCount > 0
         then (let dom = (case dominantFailure c of None \<Rightarrow> ''RUN_FAILED'' | Some d \<Rightarrow> d)
               in pushEdge
                    \<lparr> e_id = stableId H ''e'' (taskId @ ''->'' @ envId @ '':fail''),
                      e_from = taskId, e_to = envId, e_type = FAILED_RUN,
                      e_label = Some (emojiForIssue dom @ '' '' @ dom @ '' x'' @ showNat failCount),
                      e_weight = Some failCount,
                      e_meta = Some [(''taskSig'', MStr (sigId (c_sig c))),
                                     (''dominantIssue'', MStr dom)] \<rparr> st2)
         else st2)"

definition addCluster :: "(string \<Rightarrow> string) \<Rightarrow> string \<Rightarrow> TaskCluster \<Rightarrow> Builder \<Rightarrow> Builder" where
  "addCluster H plat c st =
     fold (addClusterEnv H plat c) (objEntries (envCounts c))
          (setIndex (clusterTaskNode c) (pushNode (clusterTaskNode c) st))"

definition runTaskId :: "(string \<Rightarrow> string) \<Rightarrow> RunLogEventV1 \<Rightarrow> string" where
  "runTaskId H run =
     (let taskKey = t_name (task run) @ ''|'' @ t_command (task run) @ ''|'' @ run_at run
                    @ ''|'' @ sel_pythonPath (selected run)
      in stableId H ''task'' (if runId run \<noteq> [] then runId run else taskKey))"

definition runTaskNode :: "(string \<Rightarrow> string) \<Rightarrow> RunLogEventV1 \<Rightarrow> GraphNode" where
  "runTaskNode H run =
     \<lparr> n_id = runTaskId H run, n_type = Task, n_label = t_name (task run), n_path = cwd run,
       n_python = None,
       n_health = Some
         \<lparr> h_status = (if oc_ok (outcome run) then StGood else StBad),
           h_score = Some (if oc_ok (outcome run) then 100 else 40),
           h_issues = Some
             (if oc_ok (outcome run) then []
              else [\<lparr> gi_code = (case oc_errorClass (outcome run) of
                                     None \<Rightarrow> ''RUN_FAILED'' | Some c \<Rightarrow> c),
                      gi_severity = SevBad,
                      gi_message = (case oc_stderrSnippet (outcome run) of
                                      None \<Rightarrow> ''Task failed'' | Some m \<Rightarrow> m) \<rparr>]) \<rparr>,
       n_caps = Some
         \<lparr> cap_features =
             [case (case t_requirements (task run) of None \<Rightarrow> None | Some q \<Rightarrow> rq_packages q) of
                None \<Rightarrow> ''pkgs:none''
              | Some ps \<Rightarrow> if ps = [] then ''pkgs:none'' else ''pkgs:'' @ join '','' (take 3 ps)],
           cap_tags = orEmpty (case t_requirements (task run) of
                                 None \<Rightarrow> None | Some q \<Rightarrow> rq_tags q) \<rparr>,
       n_fingerprints = None, n_lastSeenAt = Some (run_at run) \<rparr>"

text \<open>The body of the loop of "runs" mode.\<close>

definition addRunTask :: "(string \<Rightarrow> string) \<Rightarrow> string \<Rightarrow> RunLogEventV1 \<Rightarrow> Builder \<Rightarrow> Builder" where
  "addRunTask H plat run st =
     (let taskId = runTaskId H run;
          st0 = setIndex (runTaskNode H run) (pushNode (runTaskNode H run) st);
          envPy = normPath plat (sel_pythonPath (selected run));
          envId = resolveEnvId H envPy st0;
          st1 = ensureEnvNode envPy envId
                  (unknownEnvNode envId (sel_pythonPath (selected run))
                     \<lparr> h_status = (case sel_status (selected run) of
                                      None \<Rightarrow> StUnknown | Some s \<Rightarrow> s),
                       h_score = sel_score (selected run), h_issues = None \<rparr> (run_at run)) st0;
          st2 = pushEdge
                  \<lparr> e_id = stableId H ''e'' (taskId @ ''->'' @ envId @ '':route''),
                    e_from = taskId, e_to = envId, e_type = ROUTES_TASK_TO,
                    e_label = Some ''routes'', e_weight = Some 1,
                    e_meta = Some [(''runId'', MStr (runId run)),
                                   (''command'', MStr (t_command (task run)))] \<rparr> st1
      in if \<not> oc_ok (outcome run)
         then (let dom = failureCode run
               in pushEdge
                    \<lparr> e_id = stableId H ''e'' (taskId @ ''->'' @ envId @ '':fail''),
                      e_from = taskId, e_to = envId, e_type = FAILED_RUN,
                      e_label = Some (emojiForIssue dom @ '' '' @ dom), e_weight = Some 2,
                      e_meta = Some [(''runId'', MStr (runId run)),
                                     (''exitCode'', (case oc_exitCode (outcome run) of
                                                      None \<Rightarrow> MNone | Some x \<Rightarrow> MNum x)),
                                     (''dominantIssue'', MStr dom)] \<rparr> st2)
         else st2)"

subsection \<open>Insights\<close>

definition quoted :: "string \<Rightarrow> string" where
  "quoted s = [CHR 0x22] @ s @ [CHR 0x22]"

definition ruleTopIssue :: "GraphJSONv1 \<Rightarrow> MapInsight list" where
  "ruleTopIssue g =
     (case topIssues (summary g) of
        [] \<Rightarrow> []
      | t0 # _ \<Rightarrow>
          [\<lparr> i_severity = (if ti_count t0 \<ge> 3 then High else Medium),
             i_text = ''Top recurring issue: '' @ ti_code t0 @ '' ('' @ showNat (ti_count t0)
                      @ ''). '' @ ti_hint t0,
             i_meta = Some [(''code'', MStr (ti_code t0)), (''count'', MNum (int (ti_count t0)))] \<rparr>])"

text \<open>The children of a base node as the blast-radius rule computes them.\<close>

definition blastChildren :: "GraphJSONv1 \<Rightarrow> GraphNode \<Rightarrow> GraphNode list" where
  "blastChildren g base =
     (let childIds = map e_to (filter (\<lambda>e. e_type e = USES_BASE \<and> e_from e = n_id base) (edges g))
      in filter (\<lambda>n. n_id n \<in> set childIds) (nodes g))"

definition badCountOf :: "GraphNode list \<Rightarrow> nat" where
  "badCountOf ns = length (filter (\<lambda>n. statusOf n = Some StBad) ns)"

definition blastInsight :: "GraphNode \<Rightarrow> nat \<Rightarrow> nat \<Rightarrow> MapInsight" where
  "blastInsight base badCount tot =
     \<lparr> i_severity = High,
       i_text = ''Base interpreter '' @ quoted (n_label base) @ '' has a large blast radius: ''
                @ showNat badCount @ ''/'' @ showNat tot
                @ '' attached envs are bad. Fix the base first, then recreate envs.'',
       i_meta = Some [(''baseId'', MStr (n_id base)), (''total'', MNum (int tot)),
                      (''bad'', MNum (int badCount))] \<rparr>"

definition ruleBlastRadius :: "GraphJSONv1 \<Rightarrow> MapInsight list" where
  "ruleBlastRadius g =
     concat (map (\<lambda>base.
                    let childNodes = blastChildren g base;
                        badCount = badCountOf childNodes
                    in if length childNodes \<ge> 3
                          \<and> int badCount \<ge> \<lceil>(of_nat (length childNodes) :: rat) / 2\<rceil>
                       then [blastInsight base badCount (length childNodes)] else [])
                 (filter (\<lambda>n. n_type n = Base) (nodes g)))"

definition ruleHygiene :: "DoctorLiteReport list \<Rightarrow> MapInsight list" where
  "ruleHygiene reports =
     (let leakCount = length (filter (\<lambda>r. hasCode (r_findings r) ''USER_SITE_LEAK'') reports);
          pyPathCount = length (filter (\<lambda>r. hasCode (r_findings r) ''PYTHONPATH_INJECTED'') reports)
      in if leakCount \<ge> 2 \<or> pyPathCount \<ge> 2
         then [\<lparr> i_severity = High,
                 i_text = ''Ecosystem hygiene problem: USER_SITE_LEAK in '' @ showNat leakCount
                          @ '' env(s), PYTHONPATH_INJECTED in '' @ showNat pyPathCount
                          @ '' env(s). This causes '' @ quoted ''works here, fails there.''
                          @ '' Lock these down (PYTHONNOUSERSITE=1, remove PYTHONPATH).'',
                 i_meta = Some [(''leakCount'', MNum (int leakCount)),
                                (''pyPathCount'', MNum (int pyPathCount))] \<rparr>]
         else [])"

definition ruleEntropy :: "DoctorLiteReport list \<Rightarrow> MapInsight list" where
  "ruleEntropy reports =
     (let uniqueIssues = length (remdups (concat (map (\<lambda>r. map f_code
                            (filter (\<lambda>f. f_severity f \<noteq> SevInfo) (r_findings r))) reports)))
      in if length reports \<ge> 5 \<and> uniqueIssues \<ge> 8
         then [\<lparr> i_severity = Medium,
                 i_text = ''High entropy detected: '' @ showNat uniqueIssues
                          @ '' different issue types across '' @ showNat (length reports)
                          @ '' envs. Consider standardizing on 2'' @ enDash @ ''3 ''
                          @ quoted ''golden envs''
                          @ '' (data, web, ml) and routing tasks into them.'',
                 i_meta = Some [(''envs'', MNum (int (length reports))),
                                (''uniqueIssues'', MNum (int uniqueIssues))] \<rparr>]
         else [])"

text \<open>
  Cluster objects are compared by identity in \<open>flakyTasks.includes(c)\<close>; a cluster is
  identified by its position in the array.
\<close>

definition flakyIdx :: "TaskCluster list \<Rightarrow> nat list" where
  "flakyIdx clusters = take 3 (filter (\<lambda>i. isFlaky (clusters ! i)) [0..<length clusters])"

definition envLabels :: "TaskCluster \<Rightarrow> string" where
  "envLabels c = join '', '' (map (\<lambda>e. guessEnvLabel (fe_pythonPath e)) (getFailingEnvs c 2))"

definition flakyInsight :: "TaskCluster \<Rightarrow> MapInsight" where
  "flakyInsight c =
     \<lparr> i_severity = High,
       i_text = ''Flaky task detected: '' @ quoted (sig_name (c_sig c)) @ '' (success ''
                @ showInt (roundHalfUp (c_successRate c * 100)) @ ''%, '' @ showNat (c_runs c)
                @ '' runs). Dominant failure: ''
                @ (case dominantFailure c of None \<Rightarrow> ''unknown'' | Some d \<Rightarrow> d) @ ''.''
                @ (if getFailingEnvs c 2 \<noteq> []
                   then '' Failures concentrated in: '' @ envLabels c @ ''.'' else []),
       i_meta = Some [(''taskSig'', MStr (sigId (c_sig c))), (''runs'', MNum (int (c_runs c))),
                      (''successRate'', MRat (c_successRate c)),
                      (''dominantFailure'', optStr (dominantFailure c))] \<rparr>"

definition ruleFlaky :: "TaskCluster list \<Rightarrow> MapInsight list" where
  "ruleFlaky clusters = map (\<lambda>i. flakyInsight (clusters ! i)) (flakyIdx clusters)"

definition envFlakyInsight :: "TaskCluster \<Rightarrow> MapInsight" where
  "envFlakyInsight c =
     \<lparr> i_severity = High,
       i_text = ''Env-dependent flake: '' @ quoted (sig_name (c_sig c))
                @ '' succeeds on some envs but fails on others. Problem envs: ''
                @ envLabels c @ ''.'',
       i_meta = Some [(''taskSig'', MStr (sigId (c_sig c))),
                      (''failingEnvs'', MStrs (map fe_pythonPath (getFailingEnvs c 2)))] \<rparr>"

definition ruleEnvFlaky :: "TaskCluster list \<Rightarrow> MapInsight list" where
  "ruleEnvFlaky clusters =
     map (\<lambda>i. envFlakyInsight (clusters ! i))
         (filter (\<lambda>i. i \<notin> set (flakyIdx clusters))
                 (take 2 (filter (\<lambda>i. isEnvDependentFlaky (clusters ! i)) [0..<length clusters])))"

definition ruleHotspot :: "GraphJSONv1 \<Rightarrow> MapInsight list" where
  "ruleHotspot g =
     (let failByEnv = fold (\<lambda>e m. alBump (e_to e) (case e_weight e of None \<Rightarrow> 1 | Some w \<Rightarrow> w) m)
                           (filter (\<lambda>e. e_type e = FAILED_RUN) (edges g)) [];
          worstEnvs = take 2 (sort_key (\<lambda>kv. - int (snd kv)) failByEnv)
      in concat (map (\<lambda>(envId, failCount).
                        if failCount < 3 then []
                        else case find (\<lambda>n. n_id n = envId) (nodes g) of
                               None \<Rightarrow> []
                             | Some env \<Rightarrow>
                                 [\<lparr> i_severity = High,
                                    i_text = ''Failure hotspot: env '' @ quoted (n_label env)
                                      @ '' is associated with '' @ showNat failCount
                                      @ '' failing runs. Consider rebuilding it or isolating it from routing.'',
                                    i_meta = Some [(''envId'', MStr envId),
                                                   (''failCount'', MNum (int failCount))] \<rparr>])
                     worstEnvs))"

definition ruleContagion :: "GraphJSONv1 \<Rightarrow> TaskCluster list \<Rightarrow> MapInsight list" where
  "ruleContagion g clusters =
     (if clusters = [] then []
      else
        let failureCodeCounts =
              fold (\<lambda>c m. fold (\<lambda>kv m'. alBump (fst kv) (snd kv) m') (objEntries (failureCounts c)) m)
                   clusters [];
            totalFailures = runsFailed (summary g)
        in case sort_key (\<lambda>kv. - int (snd kv)) failureCodeCounts of
             [] \<Rightarrow> []
           | (code, cnt) # _ \<Rightarrow>
               if totalFailures > 0 \<and> 2 * cnt \<ge> totalFailures
               then [\<lparr> i_severity = High,
                       i_text = ''Most failures ('' @ showNat cnt @ ''/'' @ showNat totalFailures
                                @ '') share the same root cause: '' @ code @ ''. ''
                                @ hintForIssue code,
                       i_meta = Some [(''code'', MStr code), (''count'', MNum (int cnt)),
                                      (''totalFailures'', MNum (int totalFailures))] \<rparr>]
               else [])"

definition fallbackInsight :: MapInsight where
  "fallbackInsight =
     \<lparr> i_severity = Low,
       i_text = ''No major systemic risks detected. Keep env count small and prefer reproducible installs.'',
       i_meta = None \<rparr>"

text \<open>What the eight rules push, in order, before the final test on the length.\<close>

definition ruleInsights :: "GraphJSONv1 \<Rightarrow> DoctorLiteReport list \<Rightarrow> TaskCluster list
    \<Rightarrow> MapInsight list" where
  "ruleInsights g reports clusters =
     ruleTopIssue g @ ruleBlastRadius g @ ruleHygiene reports @ ruleEntropy reports
     @ ruleFlaky clusters @ ruleEnvFlaky clusters @ ruleHotspot g @ ruleContagion g clusters"

definition aggregateInsights :: "GraphJSONv1 \<Rightarrow> DoctorLiteReport list \<Rightarrow> TaskCluster list
    \<Rightarrow> MapInsight list" where
  "aggregateInsights g reports clusters =
     (let ins = ruleInsights g reports clusters
      in if length ins = 0 then ins @ [fallbackInsight] else ins)"

subsection \<open>The Mermaid diagram\<close>

definition escapeMermaid :: "string \<Rightarrow> string" where
  "escapeMermaid s =
     concat (map (\<lambda>c. if c = CHR 0x22 then [CHR 0x5C, CHR 0x22]
                       else if c = CHR ''|'' then [CHR 0x5C, CHR ''|''] else [c]) s)"

definition mermaidLabel :: "GraphNode \<Rightarrow> string" where
  "mermaidLabel n =
     (let py = (case (case n_python n of None \<Rightarrow> None | Some p \<Rightarrow> py_version p) of
                  None \<Rightarrow> []
                | Some v \<Rightarrow> if v = [] then [] else ''py'' @ v);
          score = (case scoreOf n of None \<Rightarrow> [] | Some x \<Rightarrow> ''score '' @ showInt x);
          caps = (case n_caps n of
                    None \<Rightarrow> []
                  | Some c \<Rightarrow> join '','' (take 3 (cap_features c)));
          line2 = join bullet (filter (\<lambda>x. x \<noteq> []) [py, score, caps])
      in join ''<br/>'' (filter (\<lambda>x. x \<noteq> []) [n_label n, line2]))"

definition mermaidClass :: "GraphHealthStatus \<Rightarrow> string" where
  "mermaidClass s = (if s = StGood then ''good'' else if s = StWarn then ''warn''
                     else if s = StBad then ''bad'' else ''unknown'')"

text \<open>\<open>idMap.get(id)\<close>; an absent entry prints as \<open>undefined\<close> inside a template.\<close>

definition midOf :: "(string \<Rightarrow> string) \<Rightarrow> GraphNode list \<Rightarrow> string \<Rightarrow> string option" where
  "midOf H ns i = (if i \<in> set (map n_id ns) then Some (safeMermaidId H i) else None)"

definition orUndefined :: "string option \<Rightarrow> string" where
  "orUndefined x = (case x of None \<Rightarrow> ''undefined'' | Some s \<Rightarrow> s)"

definition metaStr :: "Meta option \<Rightarrow> string \<Rightarrow> string option" where
  "metaStr m k = (case (case m of None \<Rightarrow> None | Some al \<Rightarrow> alGet al k) of
                    Some (MStr s) \<Rightarrow> if s = [] then None else Some s
                  | _ \<Rightarrow> None)"

definition classDefs :: "string list" where
  "classDefs =
     [[],
      ''  classDef good fill:#eaffea,stroke:#2b8a3e,stroke-width:1px;'',
      ''  classDef warn fill:#fff4d6,stroke:#b7791f,stroke-width:1px;'',
      ''  classDef bad fill:#ffe3e3,stroke:#c92a2a,stroke-width:1px;'',
      ''  classDef unknown fill:#f1f3f5,stroke:#868e96,stroke-width:1px;'',
      ''  classDef base fill:#e7f5ff,stroke:#1c7ed6,stroke-width:1px;'',
      ''  classDef task fill:#f8f0fc,stroke:#862e9c,stroke-width:1px;'',
      [],
      ''  legend['' @ quoted (''Legend<br/>green=good'' @ bullet @ ''yellow=warn'' @ bullet
          @ ''red=bad'' @ bullet @ ''purple=task<br/>edge label = dominant failure'')
      @ '']:::unknown'']"

definition renderMermaid :: "(string \<Rightarrow> string) \<Rightarrow> GraphJSONv1 \<Rightarrow> bool \<Rightarrow> bool \<Rightarrow> string" where
  "renderMermaid H g includeSubgraphs hotEdges =
     (let ns = nodes g;
          baseNodes = filter (\<lambda>n. n_type n = Base) ns;
          nodeLines = map (\<lambda>n. ''  '' @ safeMermaidId H (n_id n) @ ''['' @ quoted (escapeMermaid (mermaidLabel n))
                                @ '']:::''
                                @ (if n_type n = Base then ''base''
                                   else if n_type n = Task then ''task''
                                   else mermaidClass (case statusOf n of
                                                        None \<Rightarrow> StUnknown | Some s \<Rightarrow> s))) ns;
          usesBase = filter (\<lambda>e. e_type e = USES_BASE) (edges g);
          baseLines = map (\<lambda>e. ''  '' @ orUndefined (midOf H ns (e_from e)) @ '' -->|''
                                @ escapeMermaid
                                    (case (if hotEdges then metaStr (e_meta e) ''dominantIssue''
                                           else None) of
                                       None \<Rightarrow> ''USES_BASE''
                                     | Some dm \<Rightarrow> emojiForIssue dm @ '' '' @ dm)
                                @ ''| '' @ orUndefined (midOf H ns (e_to e))) usesBase;
          subLines =
            (if includeSubgraphs \<and> baseNodes \<noteq> []
             then concat (map (\<lambda>base.
                    let attached = filter (\<lambda>n. n_type n = Venv)
                          (List.map_filter (\<lambda>e. find (\<lambda>n. n_id n = e_to e) (rev ns))
                             (filter (\<lambda>e. e_from e = n_id base) usesBase))
                    in if attached = [] then []
                       else [''  subgraph '' @ safeMermaidId H (n_id base) @ ''_cluster[''
                             @ quoted (escapeMermaid (n_label base)) @ '']'']
                            @ map (\<lambda>v. ''    '' @ safeMermaidId H (n_id v)) attached
                            @ [''  end'']) baseNodes)
             else []);
          taskLines = concat (map (\<lambda>e.
                        case (midOf H ns (e_from e), midOf H ns (e_to e)) of
                          (Some f, Some t) \<Rightarrow>
                            [''  '' @ f @ (if e_type e = FAILED_RUN then '' -.->|'' else '' -->|'')
                             @ escapeMermaid (case e_label e of
                                                None \<Rightarrow> (if e_type e = FAILED_RUN then ''FAILED_RUN''
                                                          else ''ROUTES_TASK_TO'')
                                              | Some l \<Rightarrow> l)
                             @ ''| '' @ t]
                        | _ \<Rightarrow> [])
                      (filter (\<lambda>e. e_type e = ROUTES_TASK_TO \<or> e_type e = FAILED_RUN) (edges g)))
      in join [CHR 0x0A]
           ([''graph TD''] @ nodeLines @ baseLines @ subLines @ taskLines @ classDefs))"

subsection \<open>\<open>mapRender\<close>\<close>

definition emptyFilter :: ReportFilter where
  "emptyFilter = \<lparr> minScore = None, codes = None, pathsUnder = None \<rparr>"

definition optFilter :: "MapRenderOptions \<Rightarrow> ReportFilter" where
  "optFilter options = (case filter_opt options of None \<Rightarrow> emptyFilter | Some f \<Rightarrow> f)"

definition optTaskMode :: "MapRenderOptions \<Rightarrow> TaskMode" where
  "optTaskMode options = (case taskMode options of None \<Rightarrow> ModeClustered | Some m \<Rightarrow> m)"

definition includedReports :: "string \<Rightarrow> DoctorLiteReport list \<Rightarrow> MapRenderOptions
    \<Rightarrow> DoctorLiteReport list" where
  "includedReports plat reports options =
     filter (\<lambda>r. shouldIncludeReport plat r (optFilter options)) reports"

text \<open>The builder after the report loop, the roll-up and the creation of the node index.\<close>

definition reportPhase :: "(string \<Rightarrow> string) \<Rightarrow> string \<Rightarrow> (nat \<Rightarrow> string)
    \<Rightarrow> DoctorLiteReport list \<Rightarrow> Builder" where
  "reportPhase H plat clk included =
     (let st1 = fold (addReport H plat clk) included emptyBuilder;
          st2 = st1\<lparr> b_nodes := rollup (b_nodes st1) (b_edges st1) \<rparr>
      in st2\<lparr> nodeIndex := indexNodes (b_nodes st2) \<rparr>)"

definition tasksActive :: "TaskMode \<Rightarrow> RunLogEventV1 list \<Rightarrow> bool" where
  "tasksActive mode runs = (mode \<noteq> ModeNone \<and> runs \<noteq> [])"

definition clustersFor :: "(string \<Rightarrow> string) \<Rightarrow> TaskMode \<Rightarrow> RunLogEventV1 list \<Rightarrow> TaskCluster list" where
  "clustersFor H mode runs =
     (if tasksActive mode runs \<and> mode = ModeClustered then clusterRuns H runs else [])"

definition taskPhase :: "(string \<Rightarrow> string) \<Rightarrow> string \<Rightarrow> TaskMode \<Rightarrow> RunLogEventV1 list
    \<Rightarrow> Builder \<Rightarrow> Builder" where
  "taskPhase H plat mode runs st =
     (if tasksActive mode runs
      then (if mode = ModeClustered then fold (addCluster H plat) (clusterRuns H runs) st
            else fold (addRunTask H plat) runs st)
      else st)"

definition buildGraph :: "(string \<Rightarrow> string) \<Rightarrow> Host \<Rightarrow> (nat \<Rightarrow> string) \<Rightarrow> DoctorLiteReport list
    \<Rightarrow> RunLogEventV1 list \<Rightarrow> MapRenderOptions \<Rightarrow> GraphJSONv1" where
  "buildGraph H host clk reports runs options =
     (let plat = host_os host;
          mode = optTaskMode options;
          included = includedReports plat reports options;
          st = taskPhase H plat mode runs (reportPhase H plat clk included);
          ns = b_nodes st;
          active = tasksActive mode runs
      in \<lparr> g_version = ''1.0'', generatedAt = clk (ticks st), g_host = host,
           summary =
             \<lparr> envCount = length (filter (\<lambda>n. n_type n = Venv) ns),
               baseCount = length (filter (\<lambda>n. n_type n = Base) ns),
               taskCount = length (filter (\<lambda>n. n_type n = Task) ns),
               healthy = countStatus ns StGood, warning = countStatus ns StWarn,
               broken = countStatus ns StBad,
               runsPassed = (if active then length (filter (\<lambda>r. oc_ok (outcome r)) runs) else 0),
               runsFailed = (if active then length (filter (\<lambda>r. \<not> oc_ok (outcome r)) runs) else 0),
               topIssues = countTopIssues included
                             (case maxTopIssues options of None \<Rightarrow> 10 | Some m \<Rightarrow> m) \<rparr>,
           nodes = ns, edges = b_edges st \<rparr>)"

definition mapRender :: "(string \<Rightarrow> string) \<Rightarrow> Host \<Rightarrow> (nat \<Rightarrow> string) \<Rightarrow> DoctorLiteReport list
    \<Rightarrow> RunLogEventV1 list \<Rightarrow> MapRenderOptions \<Rightarrow> MapRenderResult" where
  "mapRender H host clk reports runs options =
     (let g = buildGraph H host clk reports runs options;
          fmt = (case format options of None \<Rightarrow> FmtBoth | Some f \<Rightarrow> f)
      in \<lparr> graph = g,
           mermaid = (if fmt = FmtMermaid \<or> fmt = FmtBoth
                      then Some (renderMermaid H g
                                   (case includeBaseSubgraphs options of None \<Rightarrow> True | Some b \<Rightarrow> b)
                                   (case includeHotEdgeLabels options of None \<Rightarrow> True | Some b \<Rightarrow> b))
                      else None),
           insights = aggregateInsights g
                        (includedReports (host_os host) reports options)
                        (clustersFor H (optTaskMode options) runs) \<rparr>)"

section \<open>Strings of ASCII characters\<close>

text \<open>
  In a string of ASCII characters every code point is one byte, and \<open>trim\<close>, the
  replacement of white space and \<open>toLowerCase\<close> act on the bytes one by one, as the
  functions of this section do.
\<close>

definition asciiOnly :: "string \<Rightarrow> bool" where
  "asciiOnly s = list_all (\<lambda>c. (of_char c :: nat) < 128) s"

definition isSpace :: "char \<Rightarrow> bool" where
  "isSpace c = ((of_char c :: nat) \<in> set [9, 10, 11, 12, 13, 32])"


definition collapseB :: "string \<Rightarrow> string" where
  "collapseB s = squeeze isSpace (CHR 0x20) s"



section \<open>The spec's words for "differ only in white space, letter case or order"\<close>






section \<open>Vocabulary of the statements\<close>

text \<open>The identifiers that a report and a run resolve to.\<close>

definition envIdOf :: "(string \<Rightarrow> string) \<Rightarrow> string \<Rightarrow> DoctorLiteReport \<Rightarrow> string" where
  "envIdOf H plat r = stableId H ''env'' (normPath plat (r_pythonPath r))"

definition baseIdOf :: "(string \<Rightarrow> string) \<Rightarrow> string \<Rightarrow> DoctorLiteReport \<Rightarrow> string" where
  "baseIdOf H plat r = stableId H ''base'' (normPath plat (deriveBaseKey r))"

definition runEnvId :: "(string \<Rightarrow> string) \<Rightarrow> string \<Rightarrow> RunLogEventV1 \<Rightarrow> string" where
  "runEnvId H plat run = stableId H ''env'' (normPath plat (sel_pythonPath (selected run)))"

text \<open>The number of \<open>USES_BASE\<close> edges that arrive at a node.\<close>

definition usesBaseInDegree :: "GraphJSONv1 \<Rightarrow> GraphNode \<Rightarrow> nat" where
  "usesBaseInDegree g n =
     length (filter (\<lambda>e. e_type e = USES_BASE \<and> e_to e = n_id n) (edges g))"

definition isUsesBase :: "GraphEdge \<Rightarrow> bool" where
  "isUsesBase e = (e_type e = USES_BASE)"

text \<open>An edge whose two ends are identifiers of nodes of the graph.\<close>

definition resolves :: "GraphJSONv1 \<Rightarrow> GraphEdge \<Rightarrow> bool" where
  "resolves g e = (e_from e \<in> set (map n_id (nodes g)) \<and> e_to e \<in> set (map n_id (nodes g)))"

section \<open>Invariants of the builder\<close>

definition lookupTruthy :: "(string \<Rightarrow> string option) \<Rightarrow> string \<Rightarrow> string option" where
  "lookupTruthy m k = (case m k of None \<Rightarrow> None | Some i \<Rightarrow> if i = [] then None else Some i)"

text \<open>The base identifier that the edge of a report uses, given the builder before it.\<close>

definition baseRef :: "(string \<Rightarrow> string) \<Rightarrow> string \<Rightarrow> Builder \<Rightarrow> DoctorLiteReport \<Rightarrow> string" where
  "baseRef H plat st r =
     (case lookupTruthy (baseIdByKey st) (normPath plat (deriveBaseKey r)) of
        Some i \<Rightarrow> i | None \<Rightarrow> baseIdOf H plat r)"

definition nodeIds :: "Builder \<Rightarrow> string set" where
  "nodeIds st = set (map n_id (b_nodes st))"

text \<open>The first character of an identifier tells the type of its node.\<close>

definition wellKinded :: "GraphNode \<Rightarrow> bool" where
  "wellKinded n =
     (case n_type n of
        Base \<Rightarrow> hd (n_id n) = CHR ''b''
      | Venv \<Rightarrow> hd (n_id n) = CHR ''e''
      | Task \<Rightarrow> hd (n_id n) = CHR ''t''
      | Artifact \<Rightarrow> False)"

definition edgesClosed :: "Builder \<Rightarrow> bool" where
  "edgesClosed st = (\<forall>e \<in> set (b_edges st). e_from e \<in> nodeIds st \<and> e_to e \<in> nodeIds st)"

definition envMapOk :: "(string \<Rightarrow> string) \<Rightarrow> Builder \<Rightarrow> bool" where
  "envMapOk H st = (\<forall>k i. envIdByPyPath st k = Some i \<longrightarrow> i = stableId H ''env'' k)"

definition baseEdgesOk :: "Builder \<Rightarrow> bool" where
  "baseEdgesOk st = (\<forall>e \<in> set (b_edges st). e_type e = USES_BASE \<longrightarrow> hd (e_to e) = CHR ''e'')"

text \<open>What holds while the loop over the reports runs.\<close>

definition reportInv :: "(string \<Rightarrow> string) \<Rightarrow> Builder \<Rightarrow> bool" where
  "reportInv H st =
     (list_all wellKinded (b_nodes st)
      \<and> list_all (\<lambda>n. n_type n \<noteq> Task) (b_nodes st)
      \<and> edgesClosed st \<and> envMapOk H st
      \<and> (\<forall>e \<in> set (b_edges st). e_type e = USES_BASE \<and> hd (e_to e) = CHR ''e'')
      \<and> (\<forall>k i. baseIdByKey st k = Some i \<longrightarrow> i \<noteq> [] \<longrightarrow> i \<in> nodeIds st))"

text \<open>What holds while the task nodes and edges are added.\<close>

definition taskInv :: "(string \<Rightarrow> string) \<Rightarrow> Builder \<Rightarrow> bool" where
  "taskInv H st =
     (list_all wellKinded (b_nodes st) \<and> edgesClosed st \<and> envMapOk H st \<and> baseEdgesOk st
      \<and> dom (nodeIndex st) = nodeIds st)"

text \<open>An identifier at which some \<open>USES_BASE\<close> edge of the list arrives.\<close>

definition isChildTarget :: "GraphEdge list \<Rightarrow> string \<Rightarrow> bool" where
  "isChildTarget es i = (\<exists>e \<in> set es. e_type e = USES_BASE \<and> e_to e = i)"

text \<open>The builder \<open>st\<close> has the nodes of \<open>st0\<close> and, after them, nodes that satisfy \<open>Q\<close>.\<close>

definition grown :: "Builder \<Rightarrow> (GraphNode \<Rightarrow> bool) \<Rightarrow> Builder \<Rightarrow> bool" where
  "grown st0 Q st = (\<exists>extra. b_nodes st = b_nodes st0 @ extra \<and> list_all Q extra)"

text \<open>
  The nodes that the task phase adds to a builder \<open>st0\<close>: task nodes, and environment
  nodes whose identifier no node of \<open>st0\<close> has.
\<close>

definition taskExtra :: "Builder \<Rightarrow> GraphNode \<Rightarrow> bool" where
  "taskExtra st0 n =
     ((n_type n = Task \<and> hd (n_id n) = CHR ''t'')
      \<or> (n_type n = Venv \<and> n_id n \<notin> nodeIds st0))"

text \<open>Every cluster of the map is stored under the \<open>sigId\<close> of its signature.\<close>

definition sigKeyed :: "(string \<times> TaskCluster) list \<Rightarrow> bool" where
  "sigKeyed m = (\<forall>k c. alGet m k = Some c \<longrightarrow> sigId (c_sig c) = k)"

text \<open>The builder has a \<open>ROUTES_TASK_TO\<close> edge from \<open>a\<close> to \<open>b\<close>.\<close>

definition hasRoute :: "Builder \<Rightarrow> string \<Rightarrow> string \<Rightarrow> bool" where
  "hasRoute st a b =
     (\<exists>e \<in> set (b_edges st). e_type e = ROUTES_TASK_TO \<and> e_from e = a \<and> e_to e = b)"

text \<open>The nodes that clustered mode adds to a builder \<open>st0\<close>.\<close>

definition clusterExtra :: "Builder \<Rightarrow> GraphNode \<Rightarrow> bool" where
  "clusterExtra st0 n =
     ((n_type n = Task \<and> hd (n_id n) = CHR ''t'')
      \<or> (n_type n = Venv \<and> n_id n \<notin> nodeIds st0 \<and> statusOf n = Some StUnknown))"

text \<open>The environment node that "runs" mode makes for a run whose environment is unknown.\<close>

definition synthRunNode :: "(string \<Rightarrow> string) \<Rightarrow> string \<Rightarrow> RunLogEventV1 \<Rightarrow> GraphNode" where
  "synthRunNode H plat run =
     unknownEnvNode (runEnvId H plat run) (sel_pythonPath (selected run))
       \<lparr> h_status = (case sel_status (selected run) of None \<Rightarrow> StUnknown | Some s \<Rightarrow> s),
         h_score = sel_score (selected run), h_issues = None \<rparr> (run_at run)"

text \<open>The normalised paths of a list of reports.\<close>

definition reportPaths :: "string \<Rightarrow> DoctorLiteReport list \<Rightarrow> string set" where
  "reportPaths plat rs = set (map (\<lambda>q. normPath plat (r_pythonPath q)) rs)"

text \<open>The identifier of the task node of a run, in the two task modes.\<close>

definition taskNodeId :: "(string \<Rightarrow> string) \<Rightarrow> TaskMode \<Rightarrow> RunLogEventV1 \<Rightarrow> string" where
  "taskNodeId H mode run =
     (if mode = ModeClustered then ''task:'' @ sigId (signatureForRun H run) else runTaskId H run)"

text \<open>
  The health status of the environment node that is made for an unknown environment:
  \<open>unknown\<close> in clustered mode; in "runs" mode what the first run that refers to this
  environment recorded as \<open>selected.status\<close>, and \<open>unknown\<close> if it recorded none.
\<close>

definition synthStatus :: "(string \<Rightarrow> string) \<Rightarrow> string \<Rightarrow> TaskMode \<Rightarrow> RunLogEventV1 list \<Rightarrow> string
    \<Rightarrow> GraphHealthStatus" where
  "synthStatus H plat mode runs envId =
     (if mode = ModeClustered then StUnknown
      else case find (\<lambda>x. runEnvId H plat x = envId) runs of
             None \<Rightarrow> StUnknown
           | Some r \<Rightarrow> (case sel_status (selected r) of None \<Rightarrow> StUnknown | Some s \<Rightarrow> s))"

text \<open>
  The fields that hold a reading of the wall clock: \<open>generatedAt\<close>, the
  \<open>lastSeenAt\<close> of every base node, and the \<open>lastSeenAt\<close> of the environment node
  of a report that carries no \<open>ranAt\<close>. \<open>stampless\<close> are the identifiers of the
  latter nodes; \<open>eraseResult\<close> blanks exactly these fields of a result.
\<close>

definition stampless :: "(string \<Rightarrow> string) \<Rightarrow> string \<Rightarrow> DoctorLiteReport list \<Rightarrow> string set" where
  "stampless H plat inc = set (map (envIdOf H plat) (filter (\<lambda>r. r_ranAt r = None) inc))"

definition eraseStamp :: "string set \<Rightarrow> GraphNode \<Rightarrow> GraphNode" where
  "eraseStamp S n =
     (if n_type n = Base \<or> (n_type n = Venv \<and> n_id n \<in> S) then n\<lparr> n_lastSeenAt := None \<rparr>
      else n)"

definition eraseGraph :: "string set \<Rightarrow> GraphJSONv1 \<Rightarrow> GraphJSONv1" where
  "eraseGraph S g = g\<lparr> generatedAt := [], nodes := map (eraseStamp S) (nodes g) \<rparr>"

definition eraseResult :: "string set \<Rightarrow> MapRenderResult \<Rightarrow> MapRenderResult" where
  "eraseResult S res = res\<lparr> graph := eraseGraph S (graph res) \<rparr>"

text \<open>Two builders that differ at most in readings of the clock.\<close>

definition sim :: "string set \<Rightarrow> Builder \<Rightarrow> Builder \<Rightarrow> bool" where
  "sim S st st' =
     (map (eraseStamp S) (b_nodes st) = map (eraseStamp S) (b_nodes st')
      \<and> b_edges st = b_edges st' \<and> baseIdByKey st = baseIdByKey st'
      \<and> envIdByPyPath st = envIdByPyPath st' \<and> dom (nodeIndex st) = dom (nodeIndex st'))"

section \<open>Example inputs\<close>

definition exReport :: "string \<Rightarrow> GraphHealthStatus \<Rightarrow> int \<Rightarrow> string \<Rightarrow> DoctorLiteReport" where
  "exReport path st sc base =
     \<lparr> r_pythonPath = path, r_ranAt = Some ''2024-01-01T00:00:00Z'', r_status = Some st,
       r_score = Some sc,
       r_facts = Some \<lparr> fa_version = Some ''3.11.5 (main)'', fa_version_info = Some [3, 11, 5],
                         fa_prefix = None, fa_base_prefix = Some base, fa_bits = Some 64 \<rparr>,
       r_findings = [] \<rparr>"

definition exHost :: Host where
  "exHost = \<lparr> host_os = ''linux'', host_arch = ''x64'', host_hostname = ''h'' \<rparr>"

definition exOptions :: "TaskMode \<Rightarrow> MapRenderOptions" where
  "exOptions m = \<lparr> format = Some FmtJson, filter_opt = None, includeBaseSubgraphs = None,
                    includeHotEdgeLabels = None, maxTopIssues = None, taskMode = Some m \<rparr>"

text \<open>Two clocks: what \<open>nowIso()\<close> returns during two different calls.\<close>

definition clockA :: "nat \<Rightarrow> string" where
  "clockA i = ''2024-01-01T00:00:00.000Z''"

definition clockB :: "nat \<Rightarrow> string" where
  "clockB i = ''2024-01-02T00:00:00.000Z''"

definition exReports3 :: "DoctorLiteReport list" where
  "exReports3 =
     [exReport ''/a/py'' StGood 90 ''/usr'', exReport ''/b/py'' StBad 50 ''/usr'',
      exReport ''/c/py'' StBad 30 ''/usr'']"

definition exRun :: "string \<Rightarrow> string \<Rightarrow> string list \<Rightarrow> string \<Rightarrow> bool \<Rightarrow> RunLogEventV1" where
  "exRun rid cmd pkgs py okv =
     \<lparr> runId = rid, run_at = ''2024-01-01T00:00:00Z'', cwd = None,
       task = \<lparr> t_name = ''pytest'', t_command = cmd,
                t_requirements = Some \<lparr> rq_python = None, rq_packages = Some pkgs,
                                        rq_features = None, rq_tags = None,
                                        rq_requireX64 = None \<rparr> \<rparr>,
       selected = \<lparr> sel_pythonPath = py, sel_score = None, sel_status = Some StGood \<rparr>,
       outcome = \<lparr> oc_ok = okv, oc_exitCode = None, oc_errorClass = None,
                   oc_stderrSnippet = None \<rparr>,
       doctor = None \<rparr>"

definition exCluster :: "nat \<Rightarrow> nat \<Rightarrow> TaskCluster" where
  "exCluster okc failc =
     (newCluster \<lparr> sigId = ''task_x'', sig_name = ''pytest'', sig_command = ''pytest'',
                   requirementsKey = [] \<rparr> ''2024-01-01T00:00:00Z'')
       \<lparr> c_runs := okc + failc, c_ok := okc, c_fail := failc,
         c_successRate := (if okc + failc \<noteq> 0 then of_nat okc / of_nat (okc + failc) else 0) \<rparr>"

section \<open>Task signatures\<close>

subsection \<open>Characters and white space\<close>

lemma of_char_lower: "isUpper c \<Longrightarrow> (of_char (toLowerChar c) :: nat) = of_char c + 32"
  by (auto simp: toLowerChar_def isUpper_def Let_def)

lemma isSpace_lower [simp]: "isSpace (toLowerChar c) = isSpace c"
proof (cases "isUpper c")
  case True
  then show ?thesis
    using of_char_lower[OF True] by (auto simp: isSpace_def isUpper_def Let_def)
next
  case False
  then show ?thesis by (simp add: toLowerChar_def)
qed

lemma lower_idem [simp]: "toLowerChar (toLowerChar c) = toLowerChar c"
proof (cases "isUpper c")
  case True
  have "\<not> isUpper (toLowerChar c)"
    using of_char_lower[OF True] True by (auto simp: isUpper_def Let_def)
  then show ?thesis by (simp add: toLowerChar_def)
next
  case False
  then show ?thesis by (simp add: toLowerChar_def)
qed





lemma collapseB_simps [simp]:
  "collapseB [] = []"
  "collapseB [c] = (if isSpace c then [CHR 0x20] else [c])"
  "collapseB (c # d # cs) =
     (if isSpace c then (if isSpace d then collapseB (d # cs) else CHR 0x20 # collapseB (d # cs))
      else c # collapseB (d # cs))"
  by (simp_all add: collapseB_def)






















subsection \<open>ASCII strings: the operations act byte by byte\<close>

lemma asciiOnly_simps [simp]:
  "asciiOnly [] = True"
  "asciiOnly (c # cs) = ((of_char c :: nat) < 128 \<and> asciiOnly cs)"
  "asciiOnly (xs @ ys) = (asciiOnly xs \<and> asciiOnly ys)"
  by (auto simp: asciiOnly_def)





















text \<open>
  C4. \<open>isFlaky\<close> holds exactly when the cluster has at least one success, at least one
  failure and a success rate strictly between 0.20 and 0.95. A rate of exactly 20% or
  exactly 95% is not flaky, and neither is a cluster that always passes or always fails.
\<close>

theorem isFlaky_iff:
  "(isFlaky c \<longleftrightarrow> 0 < c_ok c \<and> 0 < c_fail c
                   \<and> 2 / 10 < c_successRate c \<and> c_successRate c < 95 / 100)
   \<and> (c_successRate c = 2 / 10 \<longrightarrow> \<not> isFlaky c)
   \<and> (c_successRate c = 95 / 100 \<longrightarrow> \<not> isFlaky c)
   \<and> (c_ok c = 0 \<or> c_fail c = 0 \<longrightarrow> \<not> isFlaky c)"
  by (auto simp: isFlaky_def)

theorem isFlaky_iff_witness:
  "isFlaky (exCluster 6 4) \<and> isFlaky (exCluster 9 1)
   \<and> c_successRate (exCluster 1 4) = 2 / 10 \<and> \<not> isFlaky (exCluster 1 4)
   \<and> c_successRate (exCluster 19 1) = 95 / 100 \<and> \<not> isFlaky (exCluster 19 1)
   \<and> \<not> isFlaky (exCluster 1000 0) \<and> \<not> isFlaky (exCluster 0 1000)"
  using isFlaky_iff[of "exCluster 6 4"] isFlaky_iff[of "exCluster 9 1"]
    isFlaky_iff[of "exCluster 1 4"] isFlaky_iff[of "exCluster 19 1"]
    isFlaky_iff[of "exCluster 1000 0"] isFlaky_iff[of "exCluster 0 1000"]
  by (simp add: exCluster_def newCluster_def)


section \<open>The insight engine\<close>

lemma ruleBlastRadius_mem:
  assumes "base \<in> set (nodes g)" and "n_type base = Base"
    and "3 \<le> length (blastChildren g base)"
    and "\<lceil>(of_nat (length (blastChildren g base)) :: rat) / 2\<rceil> \<le> int (badCountOf (blastChildren g base))"
  shows "blastInsight base (badCountOf (blastChildren g base)) (length (blastChildren g base))
           \<in> set (ruleBlastRadius g)"
  using assms unfolding ruleBlastRadius_def by (auto simp: Let_def intro!: bexI[of _ base])

lemma ruleInsights_blast: "x \<in> set (ruleBlastRadius g) \<Longrightarrow> x \<in> set (aggregateInsights g reports clusters)"
  by (auto simp: aggregateInsights_def ruleInsights_def Let_def)

text \<open>
  C8. For every base node of the built graph with at least three children along
  \<open>USES_BASE\<close> edges, of which at least the ceiling of half are "bad", the insights
  contain a blast-radius insight of high severity whose text quotes the label of that
  base and whose meta names its id.
\<close>

theorem blast_radius_insight:
  assumes "res = mapRender H host clk reports runs options"
    and "base \<in> set (nodes (graph res))" and "n_type base = Base"
    and "3 \<le> length (blastChildren (graph res) base)"
    and "\<lceil>(of_nat (length (blastChildren (graph res) base)) :: rat) / 2\<rceil>
           \<le> int (badCountOf (blastChildren (graph res) base))"
  shows "\<exists>i \<in> set (insights res).
           i = blastInsight base (badCountOf (blastChildren (graph res) base))
                 (length (blastChildren (graph res) base))
           \<and> i_severity i = High
           \<and> i_meta i = Some [(''baseId'', MStr (n_id base)),
                 (''total'', MNum (int (length (blastChildren (graph res) base)))),
                 (''bad'', MNum (int (badCountOf (blastChildren (graph res) base))))]
           \<and> take (length (''Base interpreter '' @ quoted (n_label base))) (i_text i)
               = ''Base interpreter '' @ quoted (n_label base)"
proof -
  let ?g = "graph res"
  let ?i = "blastInsight base (badCountOf (blastChildren ?g base)) (length (blastChildren ?g base))"
  have "?i \<in> set (ruleBlastRadius ?g)"
    using assms(2-5) by (rule ruleBlastRadius_mem)
  then have "?i \<in> set (insights res)"
    unfolding assms(1) mapRender_def Let_def by (simp add: ruleInsights_blast)
  moreover have "i_severity ?i = High" by (simp add: blastInsight_def)
  moreover have "take (length (''Base interpreter '' @ quoted (n_label base))) (i_text ?i)
               = ''Base interpreter '' @ quoted (n_label base)"
    by (simp add: blastInsight_def)
  ultimately show ?thesis by (auto simp: blastInsight_def)
qed

theorem blast_radius_insight_witness:
  "blastInsight
     (nodes (graph (mapRender id exHost clockA exReports3 [] (exOptions ModeClustered))) ! 1) 2 3
   \<in> set (insights (mapRender id exHost clockA exReports3 [] (exOptions ModeClustered)))"
proof -
  let ?res = "mapRender id exHost clockA exReports3 [] (exOptions ModeClustered)"
  let ?b = "nodes (graph ?res) ! 1"
  have a: "?b \<in> set (nodes (graph ?res))" by code_simp
  have b: "n_type ?b = Base" by code_simp
  have c: "length (blastChildren (graph ?res) ?b) = 3" by code_simp
  have d: "badCountOf (blastChildren (graph ?res) ?b) = 2" by code_simp
  have e: "\<lceil>(of_nat (3::nat) :: rat) / 2\<rceil> \<le> int 2" by code_simp
  have c': "3 \<le> length (blastChildren (graph ?res) ?b)" unfolding c by simp
  have e': "\<lceil>(of_nat (length (blastChildren (graph ?res) ?b)) :: rat) / 2\<rceil>
              \<le> int (badCountOf (blastChildren (graph ?res) ?b))"
    unfolding c d by (rule e)
  have "\<exists>i \<in> set (insights ?res). i = blastInsight ?b (badCountOf (blastChildren (graph ?res) ?b))
                 (length (blastChildren (graph ?res) ?b))
           \<and> i_severity i = High
           \<and> i_meta i = Some [(''baseId'', MStr (n_id ?b)),
                 (''total'', MNum (int (length (blastChildren (graph ?res) ?b)))),
                 (''bad'', MNum (int (badCountOf (blastChildren (graph ?res) ?b))))]
           \<and> take (length (''Base interpreter '' @ quoted (n_label ?b))) (i_text i)
               = ''Base interpreter '' @ quoted (n_label ?b)"
    by (rule blast_radius_insight[OF refl a b c' e'])
  then show ?thesis unfolding c d by blast
qed

text \<open>
  C9. When none of the eight rules emits an insight, the engine returns exactly the one
  low-severity insight that no systemic risk was detected; the returned list is never
  empty.
\<close>

theorem fallback_when_no_rule_fires:
  "(ruleInsights g reports clusters = []
      \<longrightarrow> aggregateInsights g reports clusters = [fallbackInsight])
   \<and> i_severity fallbackInsight = Low
   \<and> take 32 (i_text fallbackInsight) = ''No major systemic risks detected''
   \<and> aggregateInsights g reports clusters \<noteq> []
   \<and> insights (mapRender H host clk rs runs options) \<noteq> []"
  by (auto simp: aggregateInsights_def Let_def fallbackInsight_def mapRender_def)

theorem fallback_when_no_rule_fires_witness:
  "ruleInsights (buildGraph id exHost clockA [] [] (exOptions ModeClustered)) [] [] = []
   \<and> aggregateInsights (buildGraph id exHost clockA [] [] (exOptions ModeClustered)) [] []
       = [fallbackInsight]"
proof -
  have "ruleInsights (buildGraph id exHost clockA [] [] (exOptions ModeClustered)) [] [] = []"
    by code_simp
  then show ?thesis
    using fallback_when_no_rule_fires[of "buildGraph id exHost clockA [] [] (exOptions ModeClustered)"
        "[]" "[]" id exHost clockA "[]" "[]" "exOptions ModeClustered"]
    by simp
qed

section \<open>The graph builder\<close>

subsection \<open>Invariants\<close>

lemma fold_invariant:
  "P s \<Longrightarrow> (\<And>x s. x \<in> set xs \<Longrightarrow> P s \<Longrightarrow> P (f x s)) \<Longrightarrow> P (fold f xs s)"
  by (induction xs arbitrary: s) auto

lemma pushNode_simps [simp]:
  "b_nodes (pushNode n st) = b_nodes st @ [n]"
  "b_edges (pushNode n st) = b_edges st"
  "baseIdByKey (pushNode n st) = baseIdByKey st"
  "envIdByPyPath (pushNode n st) = envIdByPyPath st"
  "nodeIndex (pushNode n st) = nodeIndex st"
  "ticks (pushNode n st) = ticks st"
  by (simp_all add: pushNode_def)

lemma pushEdge_simps [simp]:
  "b_nodes (pushEdge e st) = b_nodes st"
  "b_edges (pushEdge e st) = b_edges st @ [e]"
  "baseIdByKey (pushEdge e st) = baseIdByKey st"
  "envIdByPyPath (pushEdge e st) = envIdByPyPath st"
  "nodeIndex (pushEdge e st) = nodeIndex st"
  "ticks (pushEdge e st) = ticks st"
  by (simp_all add: pushEdge_def)

lemma setIndex_simps [simp]:
  "b_nodes (setIndex n st) = b_nodes st"
  "b_edges (setIndex n st) = b_edges st"
  "baseIdByKey (setIndex n st) = baseIdByKey st"
  "envIdByPyPath (setIndex n st) = envIdByPyPath st"
  "nodeIndex (setIndex n st) = (nodeIndex st)(n_id n \<mapsto> n)"
  "ticks (setIndex n st) = ticks st"
  by (simp_all add: setIndex_def)

lemma stableId_hd [simp]: "hd (stableId H (c # p) k) = c"
  by (simp add: stableId_def)

lemma stableId_ne [simp]: "stableId H p k \<noteq> []"
  by (simp add: stableId_def)

lemma envNode_simps [simp]:
  "n_id (envNode H plat r t) = envIdOf H plat r"
  "n_type (envNode H plat r t) = Venv"
  by (simp_all add: envNode_def envIdOf_def Let_def)

lemma baseNode_simps [simp]:
  "n_id (baseNode H i k bk pv ar t) = i"
  "n_type (baseNode H i k bk pv ar t) = Base"
  by (simp_all add: baseNode_def)

lemma envIdOf_hd [simp]: "hd (envIdOf H plat r) = CHR ''e''"
  by (simp add: envIdOf_def)

lemma baseIdOf_hd [simp]: "hd (baseIdOf H plat r) = CHR ''b''"
  by (simp add: baseIdOf_def)

lemma usesBaseEdge_simps [simp]:
  "e_from (usesBaseEdge H b e d) = b"
  "e_to (usesBaseEdge H b e d) = e"
  "e_type (usesBaseEdge H b e d) = USES_BASE"
  by (simp_all add: usesBaseEdge_def)

lemma addReport_edges:
  "b_edges (addReport H plat clk r st) =
     b_edges st @ [usesBaseEdge H (baseRef H plat st r) (envIdOf H plat r) (dominantIssue (r_findings r))]"
  by (auto simp: addReport_def getOrCreateBaseNode_def Let_def baseRef_def lookupTruthy_def
        envIdOf_def baseIdOf_def split: option.splits prod.splits if_splits)

lemma addReport_nodes:
  "\<exists>t t'. b_nodes (addReport H plat clk r st) =
     b_nodes st @ [envNode H plat r t]
     @ (if lookupTruthy (baseIdByKey st) (normPath plat (deriveBaseKey r)) = None
        then [baseNode H (baseIdOf H plat r) (normPath plat (deriveBaseKey r)) (deriveBaseKey r)
                (derivePyVersion r) (pickArch (r_facts r)) t']
        else [])"
  by (auto simp: addReport_def getOrCreateBaseNode_def Let_def lookupTruthy_def
        baseIdOf_def split: option.splits prod.splits if_splits)

lemma addReport_baseMap:
  "baseIdByKey (addReport H plat clk r st) =
     (if lookupTruthy (baseIdByKey st) (normPath plat (deriveBaseKey r)) = None
      then (baseIdByKey st)(normPath plat (deriveBaseKey r) \<mapsto> baseIdOf H plat r)
      else baseIdByKey st)"
  by (auto simp: addReport_def getOrCreateBaseNode_def Let_def lookupTruthy_def
        baseIdOf_def split: option.splits prod.splits if_splits)

lemma addReport_envMap:
  "envIdByPyPath (addReport H plat clk r st) =
     (envIdByPyPath st)(normPath plat (r_pythonPath r) \<mapsto> envIdOf H plat r)"
  by (auto simp: addReport_def getOrCreateBaseNode_def Let_def envIdOf_def
        split: option.splits prod.splits if_splits)

lemma addReport_index: "nodeIndex (addReport H plat clk r st) = nodeIndex st"
  by (auto simp: addReport_def getOrCreateBaseNode_def Let_def
        split: option.splits prod.splits if_splits)

lemma baseRef_in_ids:
  assumes "\<forall>k i. baseIdByKey st k = Some i \<longrightarrow> i \<noteq> [] \<longrightarrow> i \<in> nodeIds st"
    and "lookupTruthy (baseIdByKey st) (normPath plat (deriveBaseKey r)) \<noteq> None"
  shows "baseRef H plat st r \<in> nodeIds st"
  using assms by (auto simp: baseRef_def lookupTruthy_def split: option.splits if_splits)

lemma baseRef_new:
  "lookupTruthy (baseIdByKey st) (normPath plat (deriveBaseKey r)) = None
   \<Longrightarrow> baseRef H plat st r = baseIdOf H plat r"
  by (simp add: baseRef_def)

lemma reportInv_empty: "reportInv H emptyBuilder"
  by (simp add: reportInv_def emptyBuilder_def edgesClosed_def envMapOk_def nodeIds_def)

lemma reportInv_step:
  assumes "reportInv H st"
  shows "reportInv H (addReport H plat clk r st)"
proof -
  obtain t t' where ns: "b_nodes (addReport H plat clk r st) =
     b_nodes st @ [envNode H plat r t]
     @ (if lookupTruthy (baseIdByKey st) (normPath plat (deriveBaseKey r)) = None
        then [baseNode H (baseIdOf H plat r) (normPath plat (deriveBaseKey r)) (deriveBaseKey r)
                (derivePyVersion r) (pickArch (r_facts r)) t']
        else [])"
    using addReport_nodes by blast
  note es = addReport_edges[of H plat clk r st]
  note bm = addReport_baseMap[of H plat clk r st]
  note em = addReport_envMap[of H plat clk r st]
  show ?thesis
  proof (cases "lookupTruthy (baseIdByKey st) (normPath plat (deriveBaseKey r)) = None")
    case True
    then show ?thesis
      using assms baseRef_new[OF True, of H]
      unfolding reportInv_def edgesClosed_def envMapOk_def nodeIds_def ns es bm em
      by (auto simp: wellKinded_def envIdOf_def)
  next
    case False
    then show ?thesis
      using assms baseRef_in_ids[of st plat r H]
      unfolding reportInv_def edgesClosed_def envMapOk_def nodeIds_def ns es bm em
      by (auto simp: wellKinded_def envIdOf_def)
  qed
qed

lemma reportInv_fold: "reportInv H (fold (addReport H plat clk) rs emptyBuilder)"
  by (rule fold_invariant) (auto intro: reportInv_empty reportInv_step)


subsection \<open>Roll-up\<close>

lemma rollupBase_id [simp]: "n_id (rollupBase ns es b) = n_id b"
  by (simp add: rollupBase_def Let_def)

lemma rollupBase_type [simp]: "n_type (rollupBase ns es b) = n_type b"
  by (simp add: rollupBase_def Let_def)

lemma map_update_same: "f x = f (xs ! i) \<Longrightarrow> map f (xs[i := x]) = map f xs"
  by (metis list_update_beyond list_update_id map_update not_le_imp_less nth_map)

lemma rollup_fold_ids:
  "map n_id (fold (\<lambda>i cur. cur[i := rollupBase cur es (cur ! i)]) is ns) = map n_id ns"
  by (induction "is" arbitrary: ns) (simp_all add: map_update_same)

lemma rollup_fold_types:
  "map n_type (fold (\<lambda>i cur. cur[i := rollupBase cur es (cur ! i)]) is ns) = map n_type ns"
  by (induction "is" arbitrary: ns) (simp_all add: map_update_same)

lemma rollup_ids [simp]: "map n_id (rollup ns es) = map n_id ns"
  by (simp add: rollup_def rollup_fold_ids)

lemma rollup_types [simp]: "map n_type (rollup ns es) = map n_type ns"
  by (simp add: rollup_def rollup_fold_types)

lemma wellKinded_cong: "n_id a = n_id b \<Longrightarrow> n_type a = n_type b \<Longrightarrow> wellKinded a = wellKinded b"
  by (cases "n_type b") (simp_all add: wellKinded_def)

lemma list_all_wellKinded_cong:
  assumes "map n_id xs = map n_id ys" and "map n_type xs = map n_type ys"
  shows "list_all wellKinded xs = list_all wellKinded ys"
proof -
  have len: "length xs = length ys" using assms(1) by (metis length_map)
  have "wellKinded (xs ! i) = wellKinded (ys ! i)" if "i < length xs" for i
  proof (rule wellKinded_cong)
    show "n_id (xs ! i) = n_id (ys ! i)" using that len assms(1) by (metis nth_map)
    show "n_type (xs ! i) = n_type (ys ! i)" using that len assms(2) by (metis nth_map)
  qed
  then show ?thesis by (simp add: list_all_length len)
qed

lemma dom_indexNodes_fold:
  "dom (fold (\<lambda>n m. m(n_id n \<mapsto> n)) ns m0) = dom m0 \<union> set (map n_id ns)"
  by (induction ns arbitrary: m0) auto

lemma dom_indexNodes [simp]: "dom (indexNodes ns) = set (map n_id ns)"
  by (simp add: indexNodes_def dom_indexNodes_fold)

lemma reportPhase_fields [simp]:
  "b_edges (reportPhase H plat clk rs) = b_edges (fold (addReport H plat clk) rs emptyBuilder)"
  "map n_id (b_nodes (reportPhase H plat clk rs)) = map n_id (b_nodes (fold (addReport H plat clk) rs emptyBuilder))"
  "map n_type (b_nodes (reportPhase H plat clk rs)) = map n_type (b_nodes (fold (addReport H plat clk) rs emptyBuilder))"
  "envIdByPyPath (reportPhase H plat clk rs) = envIdByPyPath (fold (addReport H plat clk) rs emptyBuilder)"
  "dom (nodeIndex (reportPhase H plat clk rs)) = nodeIds (reportPhase H plat clk rs)"
  by (simp_all add: reportPhase_def Let_def nodeIds_def)

lemma nodeIds_reportPhase:
  "nodeIds (reportPhase H plat clk rs) = nodeIds (fold (addReport H plat clk) rs emptyBuilder)"
  by (simp add: nodeIds_def)

lemma taskInv_reportPhase: "taskInv H (reportPhase H plat clk rs)"
proof -
  let ?s = "fold (addReport H plat clk) rs emptyBuilder"
  have inv: "reportInv H ?s" by (rule reportInv_fold)
  have "list_all wellKinded (b_nodes (reportPhase H plat clk rs)) = list_all wellKinded (b_nodes ?s)"
    by (rule list_all_wellKinded_cong) simp_all
  then show ?thesis
    using inv
    by (auto simp: taskInv_def reportInv_def edgesClosed_def envMapOk_def baseEdgesOk_def
          nodeIds_reportPhase)
qed


subsection \<open>Task phase\<close>

lemma resolveEnvId_ok: "envMapOk H st \<Longrightarrow> resolveEnvId H k st = stableId H ''env'' k"
  by (auto simp: envMapOk_def resolveEnvId_def split: option.splits)

lemma ensureEnvNode_simps:
  "b_nodes (ensureEnvNode k i n st) = b_nodes st @ (if nodeIndex st i = None then [n] else [])"
  "b_edges (ensureEnvNode k i n st) = b_edges st"
  "nodeIndex (ensureEnvNode k i n st) =
     (if nodeIndex st i = None then (nodeIndex st)(n_id n \<mapsto> n) else nodeIndex st)"
  "envIdByPyPath (ensureEnvNode k i n st) =
     (if nodeIndex st i = None then (envIdByPyPath st)(k \<mapsto> i) else envIdByPyPath st)"
  by (simp_all add: ensureEnvNode_def)

lemma unknownEnvNode_simps [simp]:
  "n_id (unknownEnvNode i p h t) = i"
  "n_type (unknownEnvNode i p h t) = Venv"
  "n_health (unknownEnvNode i p h t) = Some h"
  by (simp_all add: unknownEnvNode_def)

lemma taskInv_pushTask:
  assumes "taskInv H st" and "n_type n = Task" and "hd (n_id n) = CHR ''t''"
  shows "taskInv H (setIndex n (pushNode n st))"
  using assms
  by (auto simp: taskInv_def edgesClosed_def envMapOk_def baseEdgesOk_def nodeIds_def wellKinded_def)

lemma taskInv_ensure:
  assumes "taskInv H st" and "i = stableId H ''env'' k" and "n_id n = i" and "n_type n = Venv"
  shows "taskInv H (ensureEnvNode k i n st)" and "i \<in> nodeIds (ensureEnvNode k i n st)"
proof -
  show "taskInv H (ensureEnvNode k i n st)"
  proof (cases "nodeIndex st i = None")
    case True
    then show ?thesis
      using assms
      by (auto simp: taskInv_def edgesClosed_def envMapOk_def baseEdgesOk_def nodeIds_def
            wellKinded_def ensureEnvNode_simps)
  next
    case False
    then show ?thesis using assms(1) by (auto simp: ensureEnvNode_def)
  qed
  show "i \<in> nodeIds (ensureEnvNode k i n st)"
  proof (cases "nodeIndex st i = None")
    case True
    then show ?thesis using assms(3) by (simp add: nodeIds_def ensureEnvNode_simps)
  next
    case False
    then have "i \<in> dom (nodeIndex st)" by auto
    then show ?thesis using assms(1) False by (auto simp: taskInv_def ensureEnvNode_def)
  qed
qed

lemma taskInv_pushEdge:
  assumes "taskInv H st" and "e_from e \<in> nodeIds st" and "e_to e \<in> nodeIds st"
    and "e_type e \<noteq> USES_BASE"
  shows "taskInv H (pushEdge e st)"
  using assms
  by (auto simp: taskInv_def edgesClosed_def envMapOk_def baseEdgesOk_def nodeIds_def)

lemma taskInv_pushEdge_iff:
  "e_type e \<noteq> USES_BASE \<Longrightarrow> e_from e \<in> nodeIds st \<Longrightarrow> e_to e \<in> nodeIds st
   \<Longrightarrow> taskInv H (pushEdge e st) = taskInv H st"
  by (auto simp: taskInv_def edgesClosed_def envMapOk_def baseEdgesOk_def nodeIds_def)

lemma nodeIds_ensure: "nodeIds st \<subseteq> nodeIds (ensureEnvNode k i n st)"
  by (auto simp: nodeIds_def ensureEnvNode_simps)

lemma nodeIds_pushEdge [simp]: "nodeIds (pushEdge e st) = nodeIds st"
  by (simp add: nodeIds_def)

lemma nodeIds_pushTask [simp]: "nodeIds (setIndex n (pushNode n st)) = insert (n_id n) (nodeIds st)"
  by (auto simp: nodeIds_def)

lemma addClusterEnv_inv:
  assumes "taskInv H st" and "''task:'' @ sigId (c_sig c) \<in> nodeIds st"
  shows "taskInv H (addClusterEnv H plat c entry st)"
    and "nodeIds st \<subseteq> nodeIds (addClusterEnv H plat c entry st)"
proof -
  let ?envPy = "normPath plat (fst entry)"
  let ?envId = "stableId H ''env'' ?envPy"
  let ?n = "unknownEnvNode ?envId (fst entry) \<lparr> h_status = StUnknown, h_score = None, h_issues = None \<rparr> (c_lastAt c)"
  let ?st1 = "ensureEnvNode ?envPy ?envId ?n st"
  have r: "resolveEnvId H ?envPy st = ?envId"
    using assms(1) by (simp add: taskInv_def resolveEnvId_ok)
  have i1: "taskInv H ?st1" and m1: "?envId \<in> nodeIds ?st1"
    using taskInv_ensure[OF assms(1), of ?envId ?envPy ?n] by simp_all
  have t1: "''task:'' @ sigId (c_sig c) \<in> nodeIds ?st1"
    using assms(2) nodeIds_ensure by blast
  show "taskInv H (addClusterEnv H plat c entry st)"
    unfolding addClusterEnv_def Let_def r
    using i1 m1 t1 by (simp add: taskInv_pushEdge_iff)
  show "nodeIds st \<subseteq> nodeIds (addClusterEnv H plat c entry st)"
    unfolding addClusterEnv_def Let_def r
    using nodeIds_ensure[of st ?envPy ?envId ?n] by auto
qed

lemma addClusterEnv_fold_inv:
  assumes "taskInv H st" and "''task:'' @ sigId (c_sig c) \<in> nodeIds st"
  shows "taskInv H (fold (addClusterEnv H plat c) es st)
         \<and> nodeIds st \<subseteq> nodeIds (fold (addClusterEnv H plat c) es st)"
  using assms
proof (induction es arbitrary: st)
  case Nil
  then show ?case by simp
next
  case (Cons e es)
  have a: "taskInv H (addClusterEnv H plat c e st)"
    and b: "nodeIds st \<subseteq> nodeIds (addClusterEnv H plat c e st)"
    using addClusterEnv_inv[OF Cons.prems] by auto
  from Cons.IH[OF a] b Cons.prems(2) show ?case by auto
qed

lemma clusterTaskNode_simps [simp]:
  "n_id (clusterTaskNode c) = ''task:'' @ sigId (c_sig c)"
  "n_type (clusterTaskNode c) = Task"
  by (simp_all add: clusterTaskNode_def)

lemma addCluster_inv:
  assumes "taskInv H st"
  shows "taskInv H (addCluster H plat c st)" and "nodeIds st \<subseteq> nodeIds (addCluster H plat c st)"
proof -
  let ?st0 = "setIndex (clusterTaskNode c) (pushNode (clusterTaskNode c) st)"
  have a: "taskInv H ?st0" using assms by (intro taskInv_pushTask) simp_all
  have b: "''task:'' @ sigId (c_sig c) \<in> nodeIds ?st0" by simp
  from addClusterEnv_fold_inv[OF a b]
  show "taskInv H (addCluster H plat c st)" and "nodeIds st \<subseteq> nodeIds (addCluster H plat c st)"
    by (auto simp: addCluster_def)
qed

lemma runTaskNode_simps [simp]:
  "n_id (runTaskNode H run) = runTaskId H run"
  "n_type (runTaskNode H run) = Task"
  by (simp_all add: runTaskNode_def)

lemma runTaskId_hd [simp]: "hd (runTaskId H run) = CHR ''t''"
  by (simp add: runTaskId_def Let_def)

lemma addRunTask_inv:
  assumes "taskInv H st"
  shows "taskInv H (addRunTask H plat run st)" and "nodeIds st \<subseteq> nodeIds (addRunTask H plat run st)"
proof -
  let ?st0 = "setIndex (runTaskNode H run) (pushNode (runTaskNode H run) st)"
  let ?envPy = "normPath plat (sel_pythonPath (selected run))"
  let ?envId = "stableId H ''env'' ?envPy"
  let ?n = "unknownEnvNode ?envId (sel_pythonPath (selected run))
              \<lparr> h_status = (case sel_status (selected run) of None \<Rightarrow> StUnknown | Some s \<Rightarrow> s),
                h_score = sel_score (selected run), h_issues = None \<rparr> (run_at run)"
  let ?st1 = "ensureEnvNode ?envPy ?envId ?n ?st0"
  have a: "taskInv H ?st0" using assms by (intro taskInv_pushTask) simp_all
  have r: "resolveEnvId H ?envPy ?st0 = ?envId"
    using a by (simp add: taskInv_def resolveEnvId_ok)
  have i1: "taskInv H ?st1" and m1: "?envId \<in> nodeIds ?st1"
    using taskInv_ensure[OF a, of ?envId ?envPy ?n] by simp_all
  have t1: "runTaskId H run \<in> nodeIds ?st1"
    using nodeIds_ensure[of ?st0 ?envPy ?envId ?n] by auto
  show "taskInv H (addRunTask H plat run st)"
    unfolding addRunTask_def Let_def r
    using i1 m1 t1 by (simp add: taskInv_pushEdge_iff)
  show "nodeIds st \<subseteq> nodeIds (addRunTask H plat run st)"
    unfolding addRunTask_def Let_def r
    using nodeIds_ensure[of ?st0 ?envPy ?envId ?n] by auto
qed

lemma taskPhase_inv:
  assumes "taskInv H st"
  shows "taskInv H (taskPhase H plat mode runs st)"
proof -
  have "taskInv H (fold (addCluster H plat) cs st)" for cs
    by (rule fold_invariant) (auto intro: assms addCluster_inv)
  moreover have "taskInv H (fold (addRunTask H plat) rs st)" for rs
    by (rule fold_invariant) (auto intro: assms addRunTask_inv)
  ultimately show ?thesis using assms by (simp add: taskPhase_def)
qed

lemma buildGraph_nodes_edges:
  "nodes (buildGraph H host clk reports runs options) =
     b_nodes (taskPhase H (host_os host) (optTaskMode options) runs
                (reportPhase H (host_os host) clk (includedReports (host_os host) reports options)))"
  "edges (buildGraph H host clk reports runs options) =
     b_edges (taskPhase H (host_os host) (optTaskMode options) runs
                (reportPhase H (host_os host) clk (includedReports (host_os host) reports options)))"
  by (simp_all add: buildGraph_def Let_def)

lemma graph_mapRender [simp]:
  "graph (mapRender H host clk reports runs options) = buildGraph H host clk reports runs options"
  by (simp add: mapRender_def Let_def)

lemma buildGraph_inv:
  "taskInv H (taskPhase H (host_os host) (optTaskMode options) runs
                (reportPhase H (host_os host) clk (includedReports (host_os host) reports options)))"
  by (intro taskPhase_inv taskInv_reportPhase)

lemma edges_resolve:
  assumes "e \<in> set (edges (buildGraph H host clk reports runs options))"
  shows "resolves (buildGraph H host clk reports runs options) e"
proof -
  define st where "st = taskPhase H (host_os host) (optTaskMode options) runs
                (reportPhase H (host_os host) clk (includedReports (host_os host) reports options))"
  have ns: "nodes (buildGraph H host clk reports runs options) = b_nodes st"
    and es: "edges (buildGraph H host clk reports runs options) = b_edges st"
    unfolding st_def by (simp_all add: buildGraph_nodes_edges)
  have "edgesClosed st"
    unfolding st_def using buildGraph_inv[of H host options runs clk reports]
    by (simp add: taskInv_def)
  then have "e_from e \<in> nodeIds st" and "e_to e \<in> nodeIds st"
    using assms unfolding es edgesClosed_def by blast+
  then show ?thesis unfolding resolves_def ns nodeIds_def by simp
qed

text \<open>
  C10. Referential integrity: in every task mode, the two ends of every edge of the
  graph that the builder returns are identifiers of nodes of the returned node array.
\<close>

theorem no_dangling_edges:
  assumes "g = graph (mapRender H host clk reports runs options)"
    and "e \<in> set (edges g)"
  shows "resolves g e"
  using assms edges_resolve[of e H host clk reports runs options] by simp

theorem no_dangling_edges_witness:
  "edges (graph (mapRender id exHost clockA [exReport ''/a/bin/python'' StGood 90 ''/usr'']
            [exRun ''r1'' ''pytest'' [] ''/z/bin/python'' False] (exOptions ModeClustered))) ! 2
     \<in> set (edges (graph (mapRender id exHost clockA [exReport ''/a/bin/python'' StGood 90 ''/usr'']
            [exRun ''r1'' ''pytest'' [] ''/z/bin/python'' False] (exOptions ModeClustered))))
   \<and> e_type (edges (graph (mapRender id exHost clockA [exReport ''/a/bin/python'' StGood 90 ''/usr'']
            [exRun ''r1'' ''pytest'' [] ''/z/bin/python'' False] (exOptions ModeClustered))) ! 2)
       = FAILED_RUN
   \<and> resolves (graph (mapRender id exHost clockA [exReport ''/a/bin/python'' StGood 90 ''/usr'']
            [exRun ''r1'' ''pytest'' [] ''/z/bin/python'' False] (exOptions ModeClustered)))
         (edges (graph (mapRender id exHost clockA [exReport ''/a/bin/python'' StGood 90 ''/usr'']
            [exRun ''r1'' ''pytest'' [] ''/z/bin/python'' False] (exOptions ModeClustered))) ! 2)"
proof -
  let ?g = "graph (mapRender id exHost clockA [exReport ''/a/bin/python'' StGood 90 ''/usr'']
            [exRun ''r1'' ''pytest'' [] ''/z/bin/python'' False] (exOptions ModeClustered))"
  have m: "edges ?g ! 2 \<in> set (edges ?g)" by code_simp
  have t: "e_type (edges ?g ! 2) = FAILED_RUN" by code_simp
  have "resolves ?g (edges ?g ! 2)" by (rule no_dangling_edges[OF refl m])
  with m t show ?thesis by blast
qed


subsection \<open>\<open>USES_BASE\<close> edges\<close>

lemma report_edges_fold:
  "map e_to (b_edges (fold (addReport H plat clk) rs st)) = map e_to (b_edges st) @ map (envIdOf H plat) rs"
  by (induction rs arbitrary: st) (simp_all add: addReport_edges)

lemma report_edges_all_uses_base:
  "\<forall>e \<in> set (b_edges (fold (addReport H plat clk) rs emptyBuilder)). e_type e = USES_BASE"
  using reportInv_fold[of H plat clk rs] by (simp add: reportInv_def)

lemma addClusterEnv_uses_base:
  "filter isUsesBase (b_edges (addClusterEnv H plat c entry st)) = filter isUsesBase (b_edges st)"
  by (simp add: addClusterEnv_def Let_def ensureEnvNode_simps isUsesBase_def)

lemma addCluster_uses_base:
  "filter isUsesBase (b_edges (addCluster H plat c st)) = filter isUsesBase (b_edges st)"
proof -
  have "filter isUsesBase (b_edges (fold (addClusterEnv H plat c) es s)) = filter isUsesBase (b_edges s)" for es s
    by (induction es arbitrary: s) (simp_all add: addClusterEnv_uses_base)
  then show ?thesis by (simp add: addCluster_def)
qed

lemma addRunTask_uses_base:
  "filter isUsesBase (b_edges (addRunTask H plat run st)) = filter isUsesBase (b_edges st)"
  by (simp add: addRunTask_def Let_def ensureEnvNode_simps isUsesBase_def)

lemma taskPhase_uses_base:
  "filter isUsesBase (b_edges (taskPhase H plat mode runs st)) = filter isUsesBase (b_edges st)"
proof -
  have "filter isUsesBase (b_edges (fold (addCluster H plat) cs s)) = filter isUsesBase (b_edges s)" for cs s
    by (induction cs arbitrary: s) (simp_all add: addCluster_uses_base)
  moreover have "filter isUsesBase (b_edges (fold (addRunTask H plat) rs s)) = filter isUsesBase (b_edges s)" for rs s
    by (induction rs arbitrary: s) (simp_all add: addRunTask_uses_base)
  ultimately show ?thesis by (simp add: taskPhase_def)
qed

lemma uses_base_targets:
  "map e_to (filter isUsesBase (edges (buildGraph H host clk reports runs options)))
     = map (envIdOf H (host_os host)) (includedReports (host_os host) reports options)"
proof -
  let ?s = "fold (addReport H (host_os host) clk) (includedReports (host_os host) reports options) emptyBuilder"
  have "filter isUsesBase (b_edges ?s) = b_edges ?s"
    using report_edges_all_uses_base[of H "host_os host" clk] by (simp add: isUsesBase_def)
  then show ?thesis
    by (simp add: buildGraph_nodes_edges taskPhase_uses_base report_edges_fold emptyBuilder_def)
qed

lemma usesBaseInDegree_alt:
  "usesBaseInDegree g n = length (filter (\<lambda>i. i = n_id n) (map e_to (filter isUsesBase (edges g))))"
  by (simp add: usesBaseInDegree_def filter_map comp_def isUsesBase_def conj_commute)

lemma count_distinct_key:
  "distinct (map f rs) \<Longrightarrow> x \<in> set (map f rs) \<Longrightarrow> length (filter (\<lambda>r. f r = x) rs) = 1"
proof (induction rs)
  case Nil
  then show ?case by simp
next
  case (Cons r rs)
  show ?case
  proof (cases "f r = x")
    case True
    then have "filter (\<lambda>r. f r = x) rs = []"
      using Cons.prems(1) by (simp add: filter_empty_conv) (metis image_eqI)
    then show ?thesis using True by simp
  next
    case False
    then show ?thesis using Cons by auto
  qed
qed

text \<open>
  C7, as the code has it. The builder creates exactly one \<open>USES_BASE\<close> edge for each
  surviving report, to the environment id of that report. So the number of
  \<open>USES_BASE\<close> edges that arrive at a node is the number of surviving reports with the
  id of that node: one for an environment node made from a report whose id no other
  surviving report has, and none for a node whose id is not that of a surviving report,
  such as an environment node synthesized for a run.
\<close>

theorem uses_base_edges_per_report:
  "map e_to (filter isUsesBase (edges (graph (mapRender H host clk reports runs options))))
     = map (envIdOf H (host_os host)) (includedReports (host_os host) reports options)
   \<and> usesBaseInDegree (graph (mapRender H host clk reports runs options)) n
       = length (filter (\<lambda>r. envIdOf H (host_os host) r = n_id n)
                   (includedReports (host_os host) reports options))
   \<and> (distinct (map (envIdOf H (host_os host)) (includedReports (host_os host) reports options))
        \<and> n_id n \<in> set (map (envIdOf H (host_os host))
                            (includedReports (host_os host) reports options))
        \<longrightarrow> usesBaseInDegree (graph (mapRender H host clk reports runs options)) n = 1)
   \<and> (n_id n \<notin> set (map (envIdOf H (host_os host)) (includedReports (host_os host) reports options))
        \<longrightarrow> usesBaseInDegree (graph (mapRender H host clk reports runs options)) n = 0)"
proof -
  let ?inc = "includedReports (host_os host) reports options"
  let ?g = "graph (mapRender H host clk reports runs options)"
  have t: "map e_to (filter isUsesBase (edges ?g)) = map (envIdOf H (host_os host)) ?inc"
    by (simp add: uses_base_targets)
  have d: "usesBaseInDegree ?g n = length (filter (\<lambda>r. envIdOf H (host_os host) r = n_id n) ?inc)"
    by (simp add: usesBaseInDegree_alt uses_base_targets filter_map comp_def)
  have one: "usesBaseInDegree ?g n = 1"
    if "distinct (map (envIdOf H (host_os host)) ?inc)"
      and "n_id n \<in> set (map (envIdOf H (host_os host)) ?inc)"
    unfolding d using that by (rule count_distinct_key)
  have zero: "usesBaseInDegree ?g n = 0"
    if "n_id n \<notin> set (map (envIdOf H (host_os host)) ?inc)"
    unfolding d using that by (simp add: filter_empty_conv) (metis image_eqI)
  show ?thesis using t d one zero by blast
qed

theorem uses_base_edges_per_report_witness:
  "usesBaseInDegree (graph (mapRender id exHost clockA [exReport ''/a'' StGood 90 ''/usr'']
       [exRun ''r'' ''c'' [] ''/z'' False] (exOptions ModeRuns)))
     (nodes (graph (mapRender id exHost clockA [exReport ''/a'' StGood 90 ''/usr'']
       [exRun ''r'' ''c'' [] ''/z'' False] (exOptions ModeRuns))) ! 0) = 1
   \<and> usesBaseInDegree (graph (mapRender id exHost clockA [exReport ''/a'' StGood 90 ''/usr'']
       [exRun ''r'' ''c'' [] ''/z'' False] (exOptions ModeRuns)))
     (nodes (graph (mapRender id exHost clockA [exReport ''/a'' StGood 90 ''/usr'']
       [exRun ''r'' ''c'' [] ''/z'' False] (exOptions ModeRuns))) ! 3) = 0"
proof -
  let ?g = "graph (mapRender id exHost clockA [exReport ''/a'' StGood 90 ''/usr'']
       [exRun ''r'' ''c'' [] ''/z'' False] (exOptions ModeRuns))"
  let ?inc = "includedReports (host_os exHost) [exReport ''/a'' StGood 90 ''/usr''] (exOptions ModeRuns)"
  have a: "distinct (map (envIdOf id (host_os exHost)) ?inc)
           \<and> n_id (nodes ?g ! 0) \<in> set (map (envIdOf id (host_os exHost)) ?inc)"
    by code_simp
  have b: "n_id (nodes ?g ! 3) \<notin> set (map (envIdOf id (host_os exHost)) ?inc)"
    by code_simp
  show ?thesis
    using uses_base_edges_per_report[of id exHost clockA "[exReport ''/a'' StGood 90 ''/usr'']"
        "[exRun ''r'' ''c'' [] ''/z'' False]" "exOptions ModeRuns" "nodes ?g ! 0"]
      uses_base_edges_per_report[of id exHost clockA "[exReport ''/a'' StGood 90 ''/usr'']"
        "[exRun ''r'' ''c'' [] ''/z'' False]" "exOptions ModeRuns" "nodes ?g ! 3"]
      a b
    by blast
qed

theorem uses_base_once_counterexample:
  "nodes (graph (mapRender id exHost clockA [] [exRun ''r'' ''c'' [] ''/z'' False] (exOptions ModeRuns))) ! 1
     \<in> set (nodes (graph (mapRender id exHost clockA [] [exRun ''r'' ''c'' [] ''/z'' False]
                 (exOptions ModeRuns))))
   \<and> n_type (nodes (graph (mapRender id exHost clockA [] [exRun ''r'' ''c'' [] ''/z'' False]
                 (exOptions ModeRuns))) ! 1) = Venv
   \<and> usesBaseInDegree
        (graph (mapRender id exHost clockA [] [exRun ''r'' ''c'' [] ''/z'' False] (exOptions ModeRuns)))
        (nodes (graph (mapRender id exHost clockA [] [exRun ''r'' ''c'' [] ''/z'' False]
                 (exOptions ModeRuns))) ! 1) = 0"
  by code_simp

subsection \<open>The roll-up of base health\<close>

lemma filter_eq_all2:
  "list_all2 (\<lambda>x y. (P x \<or> P y) \<longrightarrow> x = y) xs ys \<Longrightarrow> filter P xs = filter P ys"
proof (induction rule: list_all2_induct)
  case Nil
  then show ?case by simp
next
  case (Cons x xs y ys)
  show ?case
  proof (cases "P x \<or> P y")
    case True
    then have "x = y" using Cons.hyps(1) by blast
    then show ?thesis using Cons.IH by simp
  next
    case False
    then show ?thesis using Cons.IH by simp
  qed
qed

lemma child_pred_target:
  "list_ex (\<lambda>e. e_to e = n_id n) (filter (\<lambda>e. e_type e = USES_BASE \<and> e_from e = b) es)
   \<Longrightarrow> isChildTarget es (n_id n)"
  by (auto simp: list_ex_iff isChildTarget_def)

lemma childNodesOf_stable:
  assumes "length cur = length ns"
    and "\<forall>j < length ns. cur ! j = ns ! j
           \<or> (\<not> isChildTarget es (n_id (ns ! j)) \<and> n_id (cur ! j) = n_id (ns ! j))"
  shows "childNodesOf cur es b = childNodesOf ns es b"
proof -
  let ?P = "\<lambda>n. list_ex (\<lambda>e. e_to e = n_id n) (filter (\<lambda>e. e_type e = USES_BASE \<and> e_from e = b) es)"
  have "list_all2 (\<lambda>x y. (?P x \<or> ?P y) \<longrightarrow> x = y) cur ns"
    unfolding list_all2_conv_all_nth
  proof (intro conjI allI impI)
    show "length cur = length ns" by (rule assms(1))
  next
    fix j assume j: "j < length cur" and p: "?P (cur ! j) \<or> ?P (ns ! j)"
    from assms(2) j assms(1) have
      "cur ! j = ns ! j \<or> (\<not> isChildTarget es (n_id (ns ! j)) \<and> n_id (cur ! j) = n_id (ns ! j))"
      by simp
    then show "cur ! j = ns ! j"
    proof
      assume "cur ! j = ns ! j" then show ?thesis .
    next
      assume a: "\<not> isChildTarget es (n_id (ns ! j)) \<and> n_id (cur ! j) = n_id (ns ! j)"
      from p have "isChildTarget es (n_id (ns ! j))"
        using a child_pred_target[of "cur ! j" b es] child_pred_target[of "ns ! j" b es] by auto
      with a show ?thesis by simp
    qed
  qed
  then have "filter ?P cur = filter ?P ns" by (rule filter_eq_all2)
  then show ?thesis by (simp add: childNodesOf_def Let_def)
qed

lemma rollupBase_stable:
  assumes "length cur = length ns"
    and "\<forall>j < length ns. cur ! j = ns ! j
           \<or> (\<not> isChildTarget es (n_id (ns ! j)) \<and> n_id (cur ! j) = n_id (ns ! j))"
  shows "rollupBase cur es b = rollupBase ns es b"
  by (simp add: rollupBase_def childNodesOf_stable[OF assms])

lemma rollup_fold_nth:
  assumes hyp: "\<forall>n \<in> set ns. n_type n = Base \<longrightarrow> \<not> isChildTarget es (n_id n)"
    and "distinct xs" and "\<forall>x \<in> set xs. x < length ns \<and> n_type (ns ! x) = Base"
  shows "length (fold (\<lambda>i cur. cur[i := rollupBase cur es (cur ! i)]) xs ns) = length ns
     \<and> (\<forall>j < length ns. fold (\<lambda>i cur. cur[i := rollupBase cur es (cur ! i)]) xs ns ! j
           = (if j \<in> set xs then rollupBase ns es (ns ! j) else ns ! j))"
  using assms(2,3)
proof (induction xs rule: rev_induct)
  case Nil
  then show ?case by simp
next
  case (snoc x xs)
  let ?cur = "fold (\<lambda>i cur. cur[i := rollupBase cur es (cur ! i)]) xs ns"
  have dx: "distinct xs" and mx: "\<forall>y \<in> set xs. y < length ns \<and> n_type (ns ! y) = Base"
    using snoc.prems by simp_all
  have IH: "length ?cur = length ns"
    "\<forall>j < length ns. ?cur ! j = (if j \<in> set xs then rollupBase ns es (ns ! j) else ns ! j)"
    using snoc.IH[OF dx mx] by blast+
  have x: "x < length ns" "n_type (ns ! x) = Base" "x \<notin> set xs"
    using snoc.prems by auto
  have rel: "\<forall>j < length ns. ?cur ! j = ns ! j
           \<or> (\<not> isChildTarget es (n_id (ns ! j)) \<and> n_id (?cur ! j) = n_id (ns ! j))"
  proof (intro allI impI)
    fix j assume j: "j < length ns"
    show "?cur ! j = ns ! j
           \<or> (\<not> isChildTarget es (n_id (ns ! j)) \<and> n_id (?cur ! j) = n_id (ns ! j))"
    proof (cases "j \<in> set xs")
      case True
      then have "n_type (ns ! j) = Base" using snoc.prems by auto
      then have "\<not> isChildTarget es (n_id (ns ! j))" using hyp j by auto
      then show ?thesis using IH(2) j True by simp
    next
      case False
      then show ?thesis using IH(2) j by simp
    qed
  qed
  have cx: "?cur ! x = ns ! x" using IH(2) x by simp
  have rb: "rollupBase ?cur es (ns ! x) = rollupBase ns es (ns ! x)"
    by (rule rollupBase_stable[OF IH(1) rel])
  have st: "fold (\<lambda>i cur. cur[i := rollupBase cur es (cur ! i)]) (xs @ [x]) ns
              = ?cur[x := rollupBase ns es (ns ! x)]"
    by (simp add: cx rb)
  show ?case
  proof (intro conjI allI impI)
    show "length (fold (\<lambda>i cur. cur[i := rollupBase cur es (cur ! i)]) (xs @ [x]) ns) = length ns"
      unfolding st by (simp add: IH(1))
  next
    fix j assume j: "j < length ns"
    show "fold (\<lambda>i cur. cur[i := rollupBase cur es (cur ! i)]) (xs @ [x]) ns ! j
            = (if j \<in> set (xs @ [x]) then rollupBase ns es (ns ! j) else ns ! j)"
    proof (cases "j = x")
      case True
      then show ?thesis unfolding st using IH(1) x(1) by simp
    next
      case False
      have "?cur[x := rollupBase ns es (ns ! x)] ! j = ?cur ! j"
        using False by simp
      also have "\<dots> = (if j \<in> set xs then rollupBase ns es (ns ! j) else ns ! j)"
        using IH(2) j by blast
      finally show ?thesis unfolding st using False by simp
    qed
  qed
qed

lemma rollup_nth:
  assumes "\<forall>n \<in> set ns. n_type n = Base \<longrightarrow> \<not> isChildTarget es (n_id n)"
  shows "length (rollup ns es) = length ns"
    and "j < length ns \<Longrightarrow> rollup ns es ! j
           = (if n_type (ns ! j) = Base then rollupBase ns es (ns ! j) else ns ! j)"
proof -
  let ?xs = "filter (\<lambda>i. n_type (ns ! i) = Base) [0..<length ns]"
  have d: "distinct ?xs" by simp
  have m: "\<forall>x \<in> set ?xs. x < length ns \<and> n_type (ns ! x) = Base" by simp
  from rollup_fold_nth[OF assms d m]
  show "length (rollup ns es) = length ns"
    and "j < length ns \<Longrightarrow> rollup ns es ! j
           = (if n_type (ns ! j) = Base then rollupBase ns es (ns ! j) else ns ! j)"
    by (auto simp: rollup_def)
qed

lemma rollup_map:
  assumes "\<forall>n \<in> set ns. n_type n = Base \<longrightarrow> \<not> isChildTarget es (n_id n)"
  shows "rollup ns es = map (\<lambda>n. if n_type n = Base then rollupBase ns es n else n) ns"
  by (rule nth_equalityI) (simp_all add: rollup_nth[OF assms])

lemma childNodesOf_rollup:
  assumes "\<forall>n \<in> set ns. n_type n = Base \<longrightarrow> \<not> isChildTarget es (n_id n)"
  shows "childNodesOf (rollup ns es) es b = childNodesOf ns es b"
proof (rule childNodesOf_stable)
  show "length (rollup ns es) = length ns" by (rule rollup_nth(1)[OF assms])
  show "\<forall>j < length ns. rollup ns es ! j = ns ! j
           \<or> (\<not> isChildTarget es (n_id (ns ! j)) \<and> n_id (rollup ns es ! j) = n_id (ns ! j))"
    using assms by (auto simp: rollup_nth(2)[OF assms])
qed

subsection \<open>What the task phase adds\<close>

lemma grown_refl: "grown st0 Q st0"
  by (simp add: grown_def)

lemma grown_push:
  assumes "grown st0 Q st" and "b_nodes st' = b_nodes st @ new" and "list_all Q new"
  shows "grown st0 Q st'"
proof -
  from assms(1) obtain extra where e: "b_nodes st = b_nodes st0 @ extra" "list_all Q extra"
    unfolding grown_def by blast
  have "b_nodes st' = b_nodes st0 @ (extra @ new)" using e(1) assms(2) by simp
  moreover have "list_all Q (extra @ new)" using e(2) assms(3) by simp
  ultimately show ?thesis unfolding grown_def by blast
qed

lemma grown_ids: "grown st0 Q st \<Longrightarrow> nodeIds st0 \<subseteq> nodeIds st"
  by (auto simp: grown_def nodeIds_def)

lemma ensure_nodes_inv:
  assumes "taskInv H st"
  shows "b_nodes (ensureEnvNode k i n st) = b_nodes st @ (if i \<in> nodeIds st then [] else [n])"
proof -
  have "(nodeIndex st i = None) = (i \<notin> nodeIds st)"
    using assms unfolding taskInv_def by (metis domIff)
  then show ?thesis by (simp add: ensureEnvNode_simps)
qed

lemma addClusterEnv_nodes:
  assumes "taskInv H st"
  shows "b_nodes (addClusterEnv H plat c entry st) =
     b_nodes st @ (if stableId H ''env'' (normPath plat (fst entry)) \<in> nodeIds st then []
                   else [unknownEnvNode (stableId H ''env'' (normPath plat (fst entry))) (fst entry)
                           \<lparr> h_status = StUnknown, h_score = None, h_issues = None \<rparr> (c_lastAt c)])"
proof -
  have r: "resolveEnvId H (normPath plat (fst entry)) st = stableId H ''env'' (normPath plat (fst entry))"
    using assms by (simp add: taskInv_def resolveEnvId_ok)
  show ?thesis
    unfolding addClusterEnv_def Let_def r by (simp add: ensure_nodes_inv[OF assms])
qed

lemma addClusterEnv_grown:
  assumes "taskInv H st" and "grown st0 Q st"
    and "\<And>i p t. i \<notin> nodeIds st0 \<Longrightarrow>
           Q (unknownEnvNode i p \<lparr> h_status = StUnknown, h_score = None, h_issues = None \<rparr> t)"
  shows "grown st0 Q (addClusterEnv H plat c entry st)"
proof (rule grown_push[OF assms(2) addClusterEnv_nodes[OF assms(1)]])
  show "list_all Q (if stableId H ''env'' (normPath plat (fst entry)) \<in> nodeIds st then []
                   else [unknownEnvNode (stableId H ''env'' (normPath plat (fst entry))) (fst entry)
                           \<lparr> h_status = StUnknown, h_score = None, h_issues = None \<rparr> (c_lastAt c)])"
    using assms(3) grown_ids[OF assms(2)] by auto
qed

lemma addClusterEnv_fold_grown:
  assumes "taskInv H st" and "''task:'' @ sigId (c_sig c) \<in> nodeIds st" and "grown st0 Q st"
    and "\<And>i p t. i \<notin> nodeIds st0 \<Longrightarrow>
           Q (unknownEnvNode i p \<lparr> h_status = StUnknown, h_score = None, h_issues = None \<rparr> t)"
  shows "grown st0 Q (fold (addClusterEnv H plat c) es st)"
  using assms(1-3)
proof (induction es arbitrary: st)
  case Nil
  then show ?case by simp
next
  case (Cons e es)
  have a: "taskInv H (addClusterEnv H plat c e st)"
    and b: "nodeIds st \<subseteq> nodeIds (addClusterEnv H plat c e st)"
    using addClusterEnv_inv[OF Cons.prems(1,2)] by auto
  have g: "grown st0 Q (addClusterEnv H plat c e st)"
    by (rule addClusterEnv_grown[OF Cons.prems(1) Cons.prems(3) assms(4)])
  have t: "''task:'' @ sigId (c_sig c) \<in> nodeIds (addClusterEnv H plat c e st)"
    using b Cons.prems(2) by blast
  show ?case using Cons.IH[OF a t g] by simp
qed

lemma addCluster_grown:
  assumes "taskInv H st" and "grown st0 Q st"
    and "\<And>i p t. i \<notin> nodeIds st0 \<Longrightarrow>
           Q (unknownEnvNode i p \<lparr> h_status = StUnknown, h_score = None, h_issues = None \<rparr> t)"
    and "Q (clusterTaskNode c)"
  shows "grown st0 Q (addCluster H plat c st)"
proof -
  let ?st' = "setIndex (clusterTaskNode c) (pushNode (clusterTaskNode c) st)"
  have a: "taskInv H ?st'" using assms(1) by (intro taskInv_pushTask) simp_all
  have b: "''task:'' @ sigId (c_sig c) \<in> nodeIds ?st'" by simp
  have g: "grown st0 Q ?st'"
    by (rule grown_push[OF assms(2), of _ "[clusterTaskNode c]"]) (simp_all add: assms(4))
  show ?thesis
    unfolding addCluster_def by (rule addClusterEnv_fold_grown[OF a b g assms(3)])
qed

lemma addRunTask_nodes:
  assumes "taskInv H st"
  shows "b_nodes (addRunTask H plat run st) =
     b_nodes st @ runTaskNode H run
       # (if runEnvId H plat run \<in> insert (runTaskId H run) (nodeIds st) then []
          else [unknownEnvNode (runEnvId H plat run) (sel_pythonPath (selected run))
                  \<lparr> h_status = (case sel_status (selected run) of None \<Rightarrow> StUnknown | Some s \<Rightarrow> s),
                    h_score = sel_score (selected run), h_issues = None \<rparr> (run_at run)])"
proof -
  let ?st0 = "setIndex (runTaskNode H run) (pushNode (runTaskNode H run) st)"
  have a: "taskInv H ?st0" using assms by (intro taskInv_pushTask) simp_all
  have r: "resolveEnvId H (normPath plat (sel_pythonPath (selected run))) ?st0 = runEnvId H plat run"
    using a by (simp add: taskInv_def resolveEnvId_ok runEnvId_def)
  show ?thesis
    unfolding addRunTask_def Let_def r by (simp add: ensure_nodes_inv[OF a])
qed

lemma addRunTask_grown:
  assumes "taskInv H st" and "grown st0 Q st" and "Q (runTaskNode H run)"
    and "runEnvId H plat run \<notin> nodeIds st0 \<Longrightarrow>
           Q (unknownEnvNode (runEnvId H plat run) (sel_pythonPath (selected run))
                  \<lparr> h_status = (case sel_status (selected run) of None \<Rightarrow> StUnknown | Some s \<Rightarrow> s),
                    h_score = sel_score (selected run), h_issues = None \<rparr> (run_at run))"
  shows "grown st0 Q (addRunTask H plat run st)"
proof (rule grown_push[OF assms(2) addRunTask_nodes[OF assms(1)]])
  show "list_all Q (runTaskNode H run
       # (if runEnvId H plat run \<in> insert (runTaskId H run) (nodeIds st) then []
          else [unknownEnvNode (runEnvId H plat run) (sel_pythonPath (selected run))
                  \<lparr> h_status = (case sel_status (selected run) of None \<Rightarrow> StUnknown | Some s \<Rightarrow> s),
                    h_score = sel_score (selected run), h_issues = None \<rparr> (run_at run)]))"
    using assms(3,4) grown_ids[OF assms(2)] by auto
qed

lemma taskExtra_unknown: "i \<notin> nodeIds st0 \<Longrightarrow> taskExtra st0 (unknownEnvNode i p h t)"
  by (simp add: taskExtra_def)

lemma taskExtra_task [simp]: "taskExtra st0 (clusterTaskNode c)" "taskExtra st0 (runTaskNode H run)"
  by (simp_all add: taskExtra_def)

lemma fold_cluster_grown:
  assumes "taskInv H st" and "grown st0 Q st"
    and "\<And>i p t. i \<notin> nodeIds st0 \<Longrightarrow>
           Q (unknownEnvNode i p \<lparr> h_status = StUnknown, h_score = None, h_issues = None \<rparr> t)"
    and "\<And>c. Q (clusterTaskNode c)"
  shows "grown st0 Q (fold (addCluster H plat) cs st)"
  using assms(1,2)
proof (induction cs arbitrary: st)
  case Nil
  then show ?case by simp
next
  case (Cons c cs)
  have a: "taskInv H (addCluster H plat c st)" by (rule addCluster_inv(1)[OF Cons.prems(1)])
  have g: "grown st0 Q (addCluster H plat c st)"
    by (rule addCluster_grown[OF Cons.prems(1,2) assms(3) assms(4)])
  show ?case using Cons.IH[OF a g] by simp
qed

lemma fold_run_grown:
  assumes "taskInv H st" and "grown st0 Q st"
    and "\<And>run. run \<in> set rs \<Longrightarrow> Q (runTaskNode H run)"
    and "\<And>run. run \<in> set rs \<Longrightarrow> runEnvId H plat run \<notin> nodeIds st0 \<Longrightarrow>
           Q (unknownEnvNode (runEnvId H plat run) (sel_pythonPath (selected run))
                  \<lparr> h_status = (case sel_status (selected run) of None \<Rightarrow> StUnknown | Some s \<Rightarrow> s),
                    h_score = sel_score (selected run), h_issues = None \<rparr> (run_at run))"
  shows "grown st0 Q (fold (addRunTask H plat) rs st)"
  using assms
proof (induction rs arbitrary: st)
  case Nil
  then show ?case by simp
next
  case (Cons r rs)
  have a: "taskInv H (addRunTask H plat r st)" by (rule addRunTask_inv(1)[OF Cons.prems(1)])
  have g: "grown st0 Q (addRunTask H plat r st)"
    by (rule addRunTask_grown[OF Cons.prems(1,2)]) (simp_all add: Cons.prems(3,4))
  show ?case using Cons.IH[OF a g] Cons.prems(3,4) by simp
qed

lemma taskPhase_grown:
  assumes "taskInv H st0"
  shows "grown st0 (taskExtra st0) (taskPhase H plat mode runs st0)"
proof -
  have c: "grown st0 (taskExtra st0) (fold (addCluster H plat) cs st0)" for cs
    by (rule fold_cluster_grown[OF assms grown_refl]) (simp_all add: taskExtra_unknown)
  have r: "grown st0 (taskExtra st0) (fold (addRunTask H plat) rs st0)" for rs
    by (rule fold_run_grown[OF assms grown_refl]) (simp_all add: taskExtra_unknown)
  show ?thesis using c r by (simp add: taskPhase_def grown_refl)
qed

subsection \<open>The rolled-up score in the built graph\<close>

lemma childNodesOf_filter: "childNodesOf ns es b = childNodesOf ns (filter isUsesBase es) b"
proof -
  have "filter (\<lambda>e. e_type e = USES_BASE \<and> e_from e = b) (filter isUsesBase es)
          = filter (\<lambda>e. e_type e = USES_BASE \<and> e_from e = b) es"
    by (induction es) (auto simp: isUsesBase_def)
  then show ?thesis by (simp add: childNodesOf_def Let_def)
qed

lemma childNodesOf_append:
  "childNodesOf (xs @ ys) es b = childNodesOf xs es b @ childNodesOf ys es b"
  by (simp add: childNodesOf_def Let_def)

lemma childNodesOf_target: "n \<in> set (childNodesOf ns es b) \<Longrightarrow> isChildTarget es (n_id n)"
  unfolding childNodesOf_def Let_def using child_pred_target[of n b es] by simp

lemma childNodesOf_none:
  assumes "\<forall>n \<in> set ys. \<not> isChildTarget es (n_id n)"
  shows "childNodesOf ys es b = []"
proof (rule ccontr)
  assume "childNodesOf ys es b \<noteq> []"
  then obtain n where n: "n \<in> set (childNodesOf ys es b)" by (meson last_in_set)
  then have "n \<in> set ys" by (simp add: childNodesOf_def Let_def)
  with assms childNodesOf_target[OF n] show False by blast
qed

lemma report_no_base_target:
  assumes "reportInv H s"
  shows "\<forall>n \<in> set (b_nodes s). n_type n = Base \<longrightarrow> \<not> isChildTarget (b_edges s) (n_id n)"
proof (intro ballI impI notI)
  fix n assume n: "n \<in> set (b_nodes s)" and b: "n_type n = Base"
    and t: "isChildTarget (b_edges s) (n_id n)"
  from assms n have "wellKinded n" by (simp add: reportInv_def list_all_iff)
  with b have h: "hd (n_id n) = CHR ''b''" by (simp add: wellKinded_def)
  from t obtain e where "e \<in> set (b_edges s)" "e_to e = n_id n" unfolding isChildTarget_def by blast
  with assms have "hd (n_id n) = CHR ''e''" unfolding reportInv_def by metis
  with h show False by simp
qed

lemma report_targets_known:
  assumes "reportInv H s" and "isChildTarget (b_edges s) i"
  shows "i \<in> nodeIds s" and "hd i = CHR ''e''"
proof -
  from assms(2) obtain e where e: "e \<in> set (b_edges s)" "e_to e = i" unfolding isChildTarget_def by blast
  from assms(1) e show "i \<in> nodeIds s" unfolding reportInv_def edgesClosed_def by blast
  from assms(1) e show "hd i = CHR ''e''" unfolding reportInv_def by blast
qed

lemma reportPhase_nodes:
  "b_nodes (reportPhase H plat clk rs) =
     rollup (b_nodes (fold (addReport H plat clk) rs emptyBuilder))
            (b_edges (fold (addReport H plat clk) rs emptyBuilder))"
  by (simp add: reportPhase_def Let_def)

lemma final_children:
  fixes H plat clk rs mode runs
  defines "s1 \<equiv> fold (addReport H plat clk) rs emptyBuilder"
  defines "st \<equiv> taskPhase H plat mode runs (reportPhase H plat clk rs)"
  shows "childNodesOf (b_nodes st) (b_edges st) b = childNodesOf (b_nodes s1) (b_edges s1) b"
    and "\<forall>n \<in> set (b_nodes st). n_type n = Base \<longrightarrow> n \<in> set (rollup (b_nodes s1) (b_edges s1))"
proof -
  let ?st0 = "reportPhase H plat clk rs"
  have inv: "reportInv H s1" unfolding s1_def by (rule reportInv_fold)
  have hyp: "\<forall>n \<in> set (b_nodes s1). n_type n = Base \<longrightarrow> \<not> isChildTarget (b_edges s1) (n_id n)"
    by (rule report_no_base_target[OF inv])
  have ids0: "nodeIds ?st0 = nodeIds s1" unfolding s1_def by (rule nodeIds_reportPhase)
  have ns0: "b_nodes ?st0 = rollup (b_nodes s1) (b_edges s1)"
    unfolding s1_def by (rule reportPhase_nodes)
  have "grown ?st0 (taskExtra ?st0) st"
    unfolding st_def by (rule taskPhase_grown[OF taskInv_reportPhase])
  then obtain extra where ex: "b_nodes st = b_nodes ?st0 @ extra" "list_all (taskExtra ?st0) extra"
    unfolding grown_def by blast
  have ub: "filter isUsesBase (b_edges st) = filter isUsesBase (b_edges s1)"
    unfolding st_def s1_def by (simp add: taskPhase_uses_base)
  have none: "\<forall>n \<in> set extra. \<not> isChildTarget (b_edges s1) (n_id n)"
  proof (intro ballI notI)
    fix n assume n: "n \<in> set extra" and t: "isChildTarget (b_edges s1) (n_id n)"
    from ex(2) n have "taskExtra ?st0 n" by (simp add: list_all_iff)
    then show False
      using report_targets_known[OF inv t] ids0 by (auto simp: taskExtra_def)
  qed
  have "childNodesOf (b_nodes st) (b_edges st) b = childNodesOf (b_nodes st) (b_edges s1) b"
    using childNodesOf_filter[of "b_nodes st" "b_edges st" b]
      childNodesOf_filter[of "b_nodes st" "b_edges s1" b] ub by simp
  also have "\<dots> = childNodesOf (rollup (b_nodes s1) (b_edges s1)) (b_edges s1) b"
    unfolding ex(1) ns0 childNodesOf_append by (simp add: childNodesOf_none[OF none])
  also have "\<dots> = childNodesOf (b_nodes s1) (b_edges s1) b"
    by (rule childNodesOf_rollup[OF hyp])
  finally show "childNodesOf (b_nodes st) (b_edges st) b = childNodesOf (b_nodes s1) (b_edges s1) b" .
  show "\<forall>n \<in> set (b_nodes st). n_type n = Base \<longrightarrow> n \<in> set (rollup (b_nodes s1) (b_edges s1))"
  proof (intro ballI impI)
    fix n assume n: "n \<in> set (b_nodes st)" and b: "n_type n = Base"
    have "n \<notin> set extra"
    proof
      assume "n \<in> set extra"
      with ex(2) have "taskExtra ?st0 n" by (simp add: list_all_iff)
      with b show False by (simp add: taskExtra_def)
    qed
    with n show "n \<in> set (rollup (b_nodes s1) (b_edges s1))" unfolding ex(1) ns0 by simp
  qed
qed

lemma rollupBase_score:
  "childNodesOf ns es (n_id n) \<noteq> [] \<Longrightarrow>
     scoreOf (rollupBase ns es n) = medianScore (childNodesOf ns es (n_id n))"
  by (simp add: rollupBase_def Let_def scoreOf_def)

text \<open>
  C3. For every base node of the built graph whose children along \<open>USES_BASE\<close> edges
  carry at least one numeric score, the rolled-up score of the base node is the element
  at index \<open>n div 2\<close> of those scores sorted ascending, the lower median. Three
  children with scores 90, 50 and 30 give 50.
\<close>

theorem base_score_is_lower_median:
  assumes "g = graph (mapRender H host clk reports runs options)"
    and "b \<in> set (nodes g)" and "n_type b = Base"
    and "scores = sort (List.map_filter scoreOf (childNodesOf (nodes g) (edges g) (n_id b)))"
    and "scores \<noteq> []"
  shows "scoreOf b = Some (scores ! (length scores div 2))"
proof -
  define plat where "plat = host_os host"
  define rs where "rs = includedReports plat reports options"
  define s1 where "s1 = fold (addReport H plat clk) rs emptyBuilder"
  define st where "st = taskPhase H plat (optTaskMode options) runs (reportPhase H plat clk rs)"
  have ns: "nodes g = b_nodes st" and es: "edges g = b_edges st"
    unfolding assms(1) st_def rs_def plat_def by (simp_all add: buildGraph_nodes_edges)
  have inv: "reportInv H s1" unfolding s1_def by (rule reportInv_fold)
  have hyp: "\<forall>n \<in> set (b_nodes s1). n_type n = Base \<longrightarrow> \<not> isChildTarget (b_edges s1) (n_id n)"
    by (rule report_no_base_target[OF inv])
  have ch: "childNodesOf (nodes g) (edges g) (n_id b) = childNodesOf (b_nodes s1) (b_edges s1) (n_id b)"
    unfolding ns es st_def s1_def by (rule final_children(1))
  have "b \<in> set (rollup (b_nodes s1) (b_edges s1))"
    using final_children(2)[of H plat "optTaskMode options" runs clk rs] assms(2,3)
    unfolding ns st_def s1_def by blast
  then obtain n where n: "n \<in> set (b_nodes s1)"
      and bn: "b = (if n_type n = Base then rollupBase (b_nodes s1) (b_edges s1) n else n)"
    unfolding rollup_map[OF hyp] by auto
  have nb: "n_type n = Base" using bn assms(3) by (cases "n_type n = Base") simp_all
  then have b: "b = rollupBase (b_nodes s1) (b_edges s1) n" using bn by simp
  have idb: "n_id b = n_id n" unfolding b by simp
  have ch': "childNodesOf (nodes g) (edges g) (n_id b) = childNodesOf (b_nodes s1) (b_edges s1) (n_id n)"
    using ch idb by simp
  have ne: "childNodesOf (b_nodes s1) (b_edges s1) (n_id n) \<noteq> []"
  proof
    assume "childNodesOf (b_nodes s1) (b_edges s1) (n_id n) = []"
    then have "scores = []" unfolding assms(4) ch' by (simp add: List.map_filter_def)
    with assms(5) show False by simp
  qed
  have "scoreOf b = medianScore (childNodesOf (b_nodes s1) (b_edges s1) (n_id n))"
    unfolding b by (rule rollupBase_score[OF ne])
  also have "\<dots> = Some (scores ! (length scores div 2))"
    using assms(5) unfolding assms(4) ch' by (simp add: medianScore_def Let_def)
  finally show ?thesis .
qed

theorem base_score_is_lower_median_witness:
  "sort (List.map_filter scoreOf
           (childNodesOf (nodes (graph (mapRender id exHost clockA exReports3 [] (exOptions ModeNone))))
              (edges (graph (mapRender id exHost clockA exReports3 [] (exOptions ModeNone))))
              (n_id (nodes (graph (mapRender id exHost clockA exReports3 [] (exOptions ModeNone))) ! 1))))
     = [30, 50, 90]
   \<and> scoreOf (nodes (graph (mapRender id exHost clockA exReports3 [] (exOptions ModeNone))) ! 1)
       = Some 50"
proof -
  let ?g = "graph (mapRender id exHost clockA exReports3 [] (exOptions ModeNone))"
  let ?b = "nodes ?g ! 1"
  have m: "?b \<in> set (nodes ?g)" by code_simp
  have t: "n_type ?b = Base" by code_simp
  have s: "[30, 50, 90] = sort (List.map_filter scoreOf (childNodesOf (nodes ?g) (edges ?g) (n_id ?b)))"
    by code_simp
  have "scoreOf ?b = Some ([30, 50, 90] ! (length [30, 50, 90 :: int] div 2))"
    by (rule base_score_is_lower_median[OF refl m t s]) simp
  then have r: "scoreOf ?b = Some 50" by simp
  show ?thesis by (rule conjI[OF s[symmetric] r])
qed


section \<open>Clustering\<close>

lemma alGet_alSet: "alGet (alSet k v al) = (alGet al)(k \<mapsto> v)"
  by (induction al) (auto simp: alGet_def fun_eq_iff)

lemma key_mem: "(a, b) \<in> set al \<Longrightarrow> a \<in> fst ` set al"
  by (metis fst_conv image_eqI)

lemma alSet_keys: "fst ` set (alSet k v al) = insert k (fst ` set al)"
proof (induction al)
  case Nil
  then show ?case by simp
next
  case (Cons x al)
  obtain a b where x: "x = (a, b)" by (cases x)
  show ?case using Cons unfolding x by (cases "a = k") auto
qed

lemma alBump_keys: "fst ` set (alBump k d al) = insert k (fst ` set al)"
  unfolding alBump_def by (rule alSet_keys)

lemma alGet_mem: "alGet al k = Some v \<Longrightarrow> (k, v) \<in> set al"
  by (simp add: alGet_def map_of_SomeD)

lemma set_objEntries [simp]: "set (objEntries al) = set al"
  by (auto simp: objEntries_def)

lemma objBump_keys:
  "fst ` set (objBump k d al) = (if k = ''__proto__'' then fst ` set al else insert k (fst ` set al))"
  unfolding objBump_def by (simp add: alBump_keys)

lemma addRun_get:
  assumes "sigKeyed m"
  shows "\<exists>c. alGet (addRun H r m) = (alGet m)(sigId (signatureForRun H r) \<mapsto> c)
           \<and> sigId (c_sig c) = sigId (signatureForRun H r)
           \<and> (sel_pythonPath (selected r) \<noteq> ''__proto__''
                 \<longrightarrow> sel_pythonPath (selected r) \<in> fst ` set (envCounts c))
           \<and> (\<forall>c0. alGet m (sigId (signatureForRun H r)) = Some c0
                 \<longrightarrow> fst ` set (envCounts c0) \<subseteq> fst ` set (envCounts c))"
proof -
  let ?k = "sigId (signatureForRun H r)"
  let ?c0 = "case alGet m ?k of None \<Rightarrow> newCluster (signatureForRun H r) (run_at r) | Some c \<Rightarrow> c"
  have s0: "sigId (c_sig ?c0) = ?k"
    using assms by (auto simp: sigKeyed_def newCluster_def split: option.splits)
  let ?py = "sel_pythonPath (selected r)"
  let ?c1 = "?c0\<lparr> c_runs := c_runs ?c0 + 1,
                   c_ok := (if oc_ok (outcome r) then c_ok ?c0 + 1 else c_ok ?c0),
                   c_fail := (if oc_ok (outcome r) then c_fail ?c0 else c_fail ?c0 + 1),
                   c_lastAt := (if run_at r > c_lastAt ?c0 then run_at r else c_lastAt ?c0) \<rparr>"
  let ?c2 = "?c1\<lparr> envCounts := objBump ?py 1 (envCounts ?c1) \<rparr>"
  let ?c3 = "if oc_ok (outcome r)
                then ?c2\<lparr> envOkCounts := objBump ?py 1 (envOkCounts ?c2) \<rparr>
                else ?c2\<lparr> failureCounts := objBump (failureCode r) 1 (failureCounts ?c2),
                         envFailCounts := objBump ?py 1 (envFailCounts ?c2) \<rparr>"
  have g: "alGet (addRun H r m) = (alGet m)(?k \<mapsto> ?c3)"
    unfolding addRun_def Let_def alGet_alSet by (rule refl)
  have e3: "envCounts ?c3 = objBump ?py 1 (envCounts ?c0)" by simp
  have s3: "sigId (c_sig ?c3) = ?k" using s0 by simp
  have p3: "?py \<noteq> ''__proto__'' \<longrightarrow> ?py \<in> fst ` set (envCounts ?c3)"
    unfolding e3 objBump_keys by simp
  have sub: "\<forall>c0. alGet m ?k = Some c0 \<longrightarrow> fst ` set (envCounts c0) \<subseteq> fst ` set (envCounts ?c3)"
    unfolding e3 objBump_keys by auto
  show ?thesis using g s3 p3 sub by blast
qed

lemma addRun_sigKeyed: "sigKeyed m \<Longrightarrow> sigKeyed (addRun H r m)"
proof -
  assume a: "sigKeyed m"
  from addRun_get[OF a, of H r] obtain c where
    g: "alGet (addRun H r m) = (alGet m)(sigId (signatureForRun H r) \<mapsto> c)"
    and s: "sigId (c_sig c) = sigId (signatureForRun H r)" by blast
  show "sigKeyed (addRun H r m)"
    unfolding sigKeyed_def g using a s by (auto simp: sigKeyed_def)
qed

lemma addRun_keeps:
  assumes "sigKeyed m" and "alGet m k = Some c" and "p \<in> fst ` set (envCounts c)"
  shows "\<exists>c'. alGet (addRun H r m) k = Some c' \<and> p \<in> fst ` set (envCounts c')"
proof -
  from addRun_get[OF assms(1), of H r] obtain c1 where
    g: "alGet (addRun H r m) = (alGet m)(sigId (signatureForRun H r) \<mapsto> c1)"
    and sub: "\<forall>c0. alGet m (sigId (signatureForRun H r)) = Some c0
                 \<longrightarrow> fst ` set (envCounts c0) \<subseteq> fst ` set (envCounts c1)" by blast
  show ?thesis
  proof (cases "k = sigId (signatureForRun H r)")
    case True
    then have "fst ` set (envCounts c) \<subseteq> fst ` set (envCounts c1)" using sub assms(2) by blast
    then show ?thesis using g True assms(3) by auto
  next
    case False
    then show ?thesis using g assms(2,3) by auto
  qed
qed

lemma fold_addRun_keeps:
  assumes "sigKeyed m" and "alGet m k = Some c" and "p \<in> fst ` set (envCounts c)"
  shows "\<exists>c'. alGet (fold (addRun H) rs m) k = Some c' \<and> p \<in> fst ` set (envCounts c')"
  using assms
proof (induction rs arbitrary: m c)
  case Nil
  then show ?case by simp
next
  case (Cons r rs)
  from addRun_keeps[OF Cons.prems, of H r] obtain c' where
    c': "alGet (addRun H r m) k = Some c'" "p \<in> fst ` set (envCounts c')" by blast
  from Cons.IH[OF addRun_sigKeyed[OF Cons.prems(1)] c'] show ?case by simp
qed

lemma fold_addRun_has:
  assumes "sigKeyed m" and "r \<in> set rs" and "sel_pythonPath (selected r) \<noteq> ''__proto__''"
  shows "\<exists>c. alGet (fold (addRun H) rs m) (sigId (signatureForRun H r)) = Some c
           \<and> sel_pythonPath (selected r) \<in> fst ` set (envCounts c)"
  using assms(1,2)
proof (induction rs arbitrary: m)
  case Nil
  then show ?case by simp
next
  case (Cons x rs)
  have k: "sigKeyed (addRun H x m)" by (rule addRun_sigKeyed[OF Cons.prems(1)])
  show ?case
  proof (cases "r = x")
    case True
    from addRun_get[OF Cons.prems(1), of H x] obtain c where
      g: "alGet (addRun H x m) = (alGet m)(sigId (signatureForRun H x) \<mapsto> c)"
      and pc: "sel_pythonPath (selected x) \<in> fst ` set (envCounts c)"
      using assms(3) True by blast
    have gc: "alGet (addRun H x m) (sigId (signatureForRun H x)) = Some c" unfolding g by simp
    note this pc
    from fold_addRun_keeps[OF k this] show ?thesis using True by simp
  next
    case False
    then have "r \<in> set rs" using Cons.prems(2) by simp
    from Cons.IH[OF k this] show ?thesis by simp
  qed
qed

lemma clusterRuns_has:
  assumes "r \<in> set runs" and "sel_pythonPath (selected r) \<noteq> ''__proto__''"
  shows "\<exists>c \<in> set (clusterRuns H runs). sigId (c_sig c) = sigId (signatureForRun H r)
           \<and> sel_pythonPath (selected r) \<in> fst ` set (envCounts c)"
proof -
  have e: "sigKeyed []" by (simp add: sigKeyed_def alGet_def)
  have fk: "sigKeyed (fold (addRun H) runs [])"
    by (rule fold_invariant[where P = sigKeyed]) (auto intro: e addRun_sigKeyed)
  from fold_addRun_has[OF e assms, of H] obtain c where
    c: "alGet (fold (addRun H) runs []) (sigId (signatureForRun H r)) = Some c"
    and p: "sel_pythonPath (selected r) \<in> fst ` set (envCounts c)" by blast
  have s: "sigId (c_sig c) = sigId (signatureForRun H r)" using fk c by (simp add: sigKeyed_def)
  have "(sigId (signatureForRun H r), c) \<in> set (fold (addRun H) runs [])"
    by (rule alGet_mem[OF c])
  then have "deriveFields c \<in> set (clusterRuns H runs)"
    unfolding clusterRuns_def by (force simp: image_iff)
  moreover have "c_sig (deriveFields c) = c_sig c" "envCounts (deriveFields c) = envCounts c"
    by (simp_all add: deriveFields_def)
  ultimately show ?thesis using s p by metis
qed

section \<open>Runs whose environment has no report\<close>

subsection \<open>Routes\<close>

lemma hasRoute_mono: "set (b_edges st) \<subseteq> set (b_edges st') \<Longrightarrow> hasRoute st a b \<Longrightarrow> hasRoute st' a b"
  unfolding hasRoute_def by blast

lemma addClusterEnv_edges_append:
  "\<exists>extra. b_edges (addClusterEnv H plat c entry st) = b_edges st @ extra"
  by (simp add: addClusterEnv_def Let_def ensureEnvNode_simps)

lemma addClusterEnv_edges_mono: "set (b_edges st) \<subseteq> set (b_edges (addClusterEnv H plat c entry st))"
proof -
  from addClusterEnv_edges_append[of H plat c entry st] obtain extra where
    "b_edges (addClusterEnv H plat c entry st) = b_edges st @ extra" by blast
  then show ?thesis by simp
qed

lemma addClusterEnv_route:
  assumes "taskInv H st"
  shows "hasRoute (addClusterEnv H plat c entry st) (''task:'' @ sigId (c_sig c))
           (stableId H ''env'' (normPath plat (fst entry)))"
proof -
  have r: "resolveEnvId H (normPath plat (fst entry)) st = stableId H ''env'' (normPath plat (fst entry))"
    using assms by (simp add: taskInv_def resolveEnvId_ok)
  show ?thesis
    unfolding hasRoute_def addClusterEnv_def Let_def r by (simp add: ensureEnvNode_simps)
qed

lemma fold_clusterEnv_edges_mono:
  "set (b_edges st) \<subseteq> set (b_edges (fold (addClusterEnv H plat c) es st))"
proof (induction es arbitrary: st)
  case Nil
  then show ?case by simp
next
  case (Cons e es)
  show ?case using addClusterEnv_edges_mono[of st H plat c e] Cons.IH[of "addClusterEnv H plat c e st"]
    by auto
qed

lemma fold_clusterEnv_route:
  assumes "taskInv H st" and "''task:'' @ sigId (c_sig c) \<in> nodeIds st" and "entry \<in> set es"
  shows "hasRoute (fold (addClusterEnv H plat c) es st) (''task:'' @ sigId (c_sig c))
           (stableId H ''env'' (normPath plat (fst entry)))"
  using assms
proof (induction es arbitrary: st)
  case Nil
  then show ?case by simp
next
  case (Cons e es)
  have a: "taskInv H (addClusterEnv H plat c e st)"
    and b: "nodeIds st \<subseteq> nodeIds (addClusterEnv H plat c e st)"
    using addClusterEnv_inv[OF Cons.prems(1,2)] by auto
  have t: "''task:'' @ sigId (c_sig c) \<in> nodeIds (addClusterEnv H plat c e st)"
    using b Cons.prems(2) by blast
  show ?case
  proof (cases "entry = e")
    case True
    have "hasRoute (addClusterEnv H plat c e st) (''task:'' @ sigId (c_sig c))
           (stableId H ''env'' (normPath plat (fst entry)))"
      unfolding True by (rule addClusterEnv_route[OF Cons.prems(1)])
    then show ?thesis
      using hasRoute_mono[OF fold_clusterEnv_edges_mono[of "addClusterEnv H plat c e st" H plat c es]]
      by simp
  next
    case False
    then have "entry \<in> set es" using Cons.prems(3) by simp
    from Cons.IH[OF a t this] show ?thesis by simp
  qed
qed

lemma addCluster_edges_mono: "set (b_edges st) \<subseteq> set (b_edges (addCluster H plat c st))"
  unfolding addCluster_def
  using fold_clusterEnv_edges_mono[of "setIndex (clusterTaskNode c) (pushNode (clusterTaskNode c) st)"]
  by simp

lemma addCluster_route:
  assumes "taskInv H st" and "entry \<in> set (objEntries (envCounts c))"
  shows "hasRoute (addCluster H plat c st) (''task:'' @ sigId (c_sig c))
           (stableId H ''env'' (normPath plat (fst entry)))"
proof -
  let ?st' = "setIndex (clusterTaskNode c) (pushNode (clusterTaskNode c) st)"
  have a: "taskInv H ?st'" using assms(1) by (intro taskInv_pushTask) simp_all
  have b: "''task:'' @ sigId (c_sig c) \<in> nodeIds ?st'" by simp
  show ?thesis unfolding addCluster_def by (rule fold_clusterEnv_route[OF a b assms(2)])
qed

lemma fold_cluster_edges_mono: "set (b_edges st) \<subseteq> set (b_edges (fold (addCluster H plat) cs st))"
proof (induction cs arbitrary: st)
  case Nil
  then show ?case by simp
next
  case (Cons c cs)
  show ?case using addCluster_edges_mono[of st H plat c] Cons.IH[of "addCluster H plat c st"] by auto
qed

lemma fold_cluster_route:
  assumes "taskInv H st" and "c \<in> set cs" and "entry \<in> set (objEntries (envCounts c))"
  shows "hasRoute (fold (addCluster H plat) cs st) (''task:'' @ sigId (c_sig c))
           (stableId H ''env'' (normPath plat (fst entry)))"
  using assms(1,2)
proof (induction cs arbitrary: st)
  case Nil
  then show ?case by simp
next
  case (Cons x cs)
  have a: "taskInv H (addCluster H plat x st)" by (rule addCluster_inv(1)[OF Cons.prems(1)])
  show ?case
  proof (cases "c = x")
    case True
    have "hasRoute (addCluster H plat x st) (''task:'' @ sigId (c_sig c))
           (stableId H ''env'' (normPath plat (fst entry)))"
      using addCluster_route[OF Cons.prems(1), of entry c plat] assms(3) True by simp
    then show ?thesis
      using hasRoute_mono[OF fold_cluster_edges_mono[of "addCluster H plat x st" H plat cs]] by simp
  next
    case False
    then have "c \<in> set cs" using Cons.prems(2) by simp
    from Cons.IH[OF a this] show ?thesis by simp
  qed
qed

lemma addRunTask_edges_append:
  "\<exists>extra. b_edges (addRunTask H plat run st) = b_edges st @ extra"
  by (simp add: addRunTask_def Let_def ensureEnvNode_simps)

lemma addRunTask_edges_mono: "set (b_edges st) \<subseteq> set (b_edges (addRunTask H plat run st))"
proof -
  from addRunTask_edges_append[of H plat run st] obtain extra where
    "b_edges (addRunTask H plat run st) = b_edges st @ extra" by blast
  then show ?thesis by simp
qed

lemma addRunTask_route:
  assumes "taskInv H st"
  shows "hasRoute (addRunTask H plat run st) (runTaskId H run) (runEnvId H plat run)"
proof -
  let ?st0 = "setIndex (runTaskNode H run) (pushNode (runTaskNode H run) st)"
  have a: "taskInv H ?st0" using assms by (intro taskInv_pushTask) simp_all
  have r: "resolveEnvId H (normPath plat (sel_pythonPath (selected run))) ?st0 = runEnvId H plat run"
    using a by (simp add: taskInv_def resolveEnvId_ok runEnvId_def)
  show ?thesis
    unfolding hasRoute_def addRunTask_def Let_def r by (simp add: ensureEnvNode_simps)
qed

lemma fold_run_edges_mono: "set (b_edges st) \<subseteq> set (b_edges (fold (addRunTask H plat) rs st))"
proof (induction rs arbitrary: st)
  case Nil
  then show ?case by simp
next
  case (Cons r rs)
  show ?case using addRunTask_edges_mono[of st H plat r] Cons.IH[of "addRunTask H plat r st"] by auto
qed

lemma fold_run_route:
  assumes "taskInv H st" and "run \<in> set rs"
  shows "hasRoute (fold (addRunTask H plat) rs st) (runTaskId H run) (runEnvId H plat run)"
  using assms
proof (induction rs arbitrary: st)
  case Nil
  then show ?case by simp
next
  case (Cons x rs)
  have a: "taskInv H (addRunTask H plat x st)" by (rule addRunTask_inv(1)[OF Cons.prems(1)])
  show ?case
  proof (cases "run = x")
    case True
    have "hasRoute (addRunTask H plat x st) (runTaskId H run) (runEnvId H plat run)"
      unfolding True by (rule addRunTask_route[OF Cons.prems(1)])
    then show ?thesis
      using hasRoute_mono[OF fold_run_edges_mono[of "addRunTask H plat x st" H plat rs]] by simp
  next
    case False
    then have "run \<in> set rs" using Cons.prems(2) by simp
    from Cons.IH[OF a this] show ?thesis by simp
  qed
qed

lemma taskPhase_route:
  assumes "taskInv H st" and "mode \<noteq> ModeNone" and "run \<in> set runs"
    and "mode = ModeClustered \<longrightarrow> sel_pythonPath (selected run) \<noteq> ''__proto__''"
  shows "hasRoute (taskPhase H plat mode runs st) (taskNodeId H mode run) (runEnvId H plat run)"
proof (cases "mode = ModeClustered")
  case True
  then have np: "sel_pythonPath (selected run) \<noteq> ''__proto__''" using assms(4) by simp
  from clusterRuns_has[OF assms(3) np, of H] obtain c where
    c: "c \<in> set (clusterRuns H runs)" "sigId (c_sig c) = sigId (signatureForRun H run)"
    and p: "sel_pythonPath (selected run) \<in> fst ` set (envCounts c)" by blast
  from p obtain entry where e: "entry \<in> set (objEntries (envCounts c))"
      "fst entry = sel_pythonPath (selected run)" by auto
  have "hasRoute (fold (addCluster H plat) (clusterRuns H runs) st) (''task:'' @ sigId (c_sig c))
           (stableId H ''env'' (normPath plat (fst entry)))"
    by (rule fold_cluster_route[OF assms(1) c(1) e(1)])
  then show ?thesis
    using True assms(3) c(2) e(2)
    by (auto simp: taskPhase_def tasksActive_def taskNodeId_def runEnvId_def)
next
  case False
  have "hasRoute (fold (addRunTask H plat) runs st) (runTaskId H run) (runEnvId H plat run)"
    by (rule fold_run_route[OF assms(1,3)])
  then show ?thesis
    using False assms(2,3)
    by (auto simp: taskPhase_def tasksActive_def taskNodeId_def)
qed

subsection \<open>The identifiers after the report loop\<close>

lemma report_nodeIds_fold:
  "nodeIds (fold (addReport H plat clk) rs st)
     \<subseteq> nodeIds st \<union> set (map (envIdOf H plat) rs) \<union> {i. hd i = CHR ''b''}"
proof (induction rs arbitrary: st)
  case Nil
  then show ?case by simp
next
  case (Cons r rs)
  obtain t t' where ns: "b_nodes (addReport H plat clk r st) =
     b_nodes st @ [envNode H plat r t]
     @ (if lookupTruthy (baseIdByKey st) (normPath plat (deriveBaseKey r)) = None
        then [baseNode H (baseIdOf H plat r) (normPath plat (deriveBaseKey r)) (deriveBaseKey r)
                (derivePyVersion r) (pickArch (r_facts r)) t']
        else [])"
    using addReport_nodes by blast
  have "nodeIds (addReport H plat clk r st)
          \<subseteq> nodeIds st \<union> {envIdOf H plat r} \<union> {i. hd i = CHR ''b''}"
    unfolding nodeIds_def ns by auto
  then show ?case using Cons.IH[of "addReport H plat clk r st"] by auto
qed

lemma reportPhase_nodeIds:
  assumes "i \<in> nodeIds (reportPhase H plat clk rs)" and "hd i = CHR ''e''"
  shows "i \<in> set (map (envIdOf H plat) rs)"
proof -
  have "i \<in> nodeIds (fold (addReport H plat clk) rs emptyBuilder)"
    using assms(1) by (simp add: nodeIds_reportPhase)
  then have "i \<in> nodeIds emptyBuilder \<union> set (map (envIdOf H plat) rs) \<union> {i. hd i = CHR ''b''}"
    using report_nodeIds_fold[of H plat clk rs emptyBuilder] by blast
  then show ?thesis using assms(2) by (auto simp: nodeIds_def emptyBuilder_def)
qed

lemma runEnvId_hd [simp]: "hd (runEnvId H plat run) = CHR ''e''"
  by (simp add: runEnvId_def)

subsection \<open>Clustered mode\<close>

lemma clusterExtra_unknown:
  "i \<notin> nodeIds st0 \<Longrightarrow>
     clusterExtra st0 (unknownEnvNode i p \<lparr> h_status = StUnknown, h_score = None, h_issues = None \<rparr> t)"
  by (simp add: clusterExtra_def statusOf_def)

lemma clusterExtra_task [simp]: "clusterExtra st0 (clusterTaskNode c)"
  by (simp add: clusterExtra_def)

lemma cluster_nodes_status:
  assumes "taskInv H st0" and "i \<notin> nodeIds st0" and "hd i = CHR ''e''"
    and "n \<in> set (b_nodes (fold (addCluster H plat) cs st0))" and "n_id n = i"
  shows "n_type n = Venv \<and> statusOf n = Some StUnknown"
proof -
  have "grown st0 (clusterExtra st0) (fold (addCluster H plat) cs st0)"
    by (rule fold_cluster_grown[OF assms(1) grown_refl]) (simp_all add: clusterExtra_unknown)
  then obtain extra where ex: "b_nodes (fold (addCluster H plat) cs st0) = b_nodes st0 @ extra"
      "list_all (clusterExtra st0) extra"
    unfolding grown_def by blast
  have "n \<notin> set (b_nodes st0)" using assms(2,5) by (auto simp: nodeIds_def)
  then have "n \<in> set extra" using assms(4) unfolding ex(1) by simp
  then have ce: "clusterExtra st0 n" using ex(2) by (simp add: list_all_iff)
  have h: "hd (n_id n) = CHR ''e''" using assms(3,5) by simp
  from ce show ?thesis
    unfolding clusterExtra_def
  proof (elim disjE conjE)
    assume "hd (n_id n) = CHR ''t''"
    with h show ?thesis by simp
  next
    assume "n_type n = Venv" and "statusOf n = Some StUnknown"
    then show ?thesis by simp
  qed
qed

subsection \<open>"runs" mode: the first run that refers to the environment decides\<close>

lemma addRunTask_nodes':
  assumes "taskInv H st"
  shows "b_nodes (addRunTask H plat run st) =
     b_nodes st @ runTaskNode H run
       # (if runEnvId H plat run \<in> nodeIds st then [] else [synthRunNode H plat run])"
proof -
  have "hd (runEnvId H plat run) \<noteq> hd (runTaskId H run)" by simp
  then have "runEnvId H plat run \<noteq> runTaskId H run" by force
  then show ?thesis
    unfolding addRunTask_nodes[OF assms] synthRunNode_def by simp
qed

lemma synthRunNode_simps [simp]:
  "n_id (synthRunNode H plat run) = runEnvId H plat run"
  "n_type (synthRunNode H plat run) = Venv"
  "statusOf (synthRunNode H plat run)
     = Some (case sel_status (selected run) of None \<Rightarrow> StUnknown | Some s \<Rightarrow> s)"
  by (simp_all add: synthRunNode_def statusOf_def)

lemma filter_id_step:
  assumes "taskInv H st" and "hd i = CHR ''e''"
  shows "filter (\<lambda>n. n_id n = i) (b_nodes (addRunTask H plat run st)) =
     filter (\<lambda>n. n_id n = i) (b_nodes st)
     @ (if runEnvId H plat run = i \<and> i \<notin> nodeIds st then [synthRunNode H plat run] else [])"
proof -
  have "hd (runTaskId H run) \<noteq> hd i" using assms(2) by simp
  then have "runTaskId H run \<noteq> i" by force
  then show ?thesis unfolding addRunTask_nodes'[OF assms(1)] by simp
qed

lemma run_nodes_present:
  assumes "taskInv H st" and "i \<in> nodeIds st" and "hd i = CHR ''e''"
  shows "filter (\<lambda>n. n_id n = i) (b_nodes (fold (addRunTask H plat) rs st))
           = filter (\<lambda>n. n_id n = i) (b_nodes st)"
  using assms(1,2)
proof (induction rs arbitrary: st)
  case Nil
  then show ?case by simp
next
  case (Cons r rs)
  have a: "taskInv H (addRunTask H plat r st)" and b: "nodeIds st \<subseteq> nodeIds (addRunTask H plat r st)"
    using addRunTask_inv[OF Cons.prems(1)] by auto
  have i: "i \<in> nodeIds (addRunTask H plat r st)" using b Cons.prems(2) by blast
  have "filter (\<lambda>n. n_id n = i) (b_nodes (addRunTask H plat r st)) = filter (\<lambda>n. n_id n = i) (b_nodes st)"
    unfolding filter_id_step[OF Cons.prems(1) assms(3)] using Cons.prems(2) by simp
  then show ?case using Cons.IH[OF a i] by simp
qed

lemma run_nodes_absent:
  assumes "taskInv H st" and "i \<notin> nodeIds st" and "hd i = CHR ''e''"
  shows "filter (\<lambda>n. n_id n = i) (b_nodes (fold (addRunTask H plat) rs st))
           = (case find (\<lambda>x. runEnvId H plat x = i) rs of
                None \<Rightarrow> [] | Some r \<Rightarrow> [synthRunNode H plat r])"
  using assms(1,2)
proof (induction rs arbitrary: st)
  case Nil
  then show ?case by (auto simp: nodeIds_def filter_empty_conv)
next
  case (Cons r rs)
  have a: "taskInv H (addRunTask H plat r st)"
    by (rule addRunTask_inv(1)[OF Cons.prems(1)])
  have old: "filter (\<lambda>n. n_id n = i) (b_nodes st) = []"
    using Cons.prems(2) by (auto simp: nodeIds_def filter_empty_conv)
  show ?case
  proof (cases "runEnvId H plat r = i")
    case True
    have f: "filter (\<lambda>n. n_id n = i) (b_nodes (addRunTask H plat r st)) = [synthRunNode H plat r]"
      unfolding filter_id_step[OF Cons.prems(1) assms(3)] old using True Cons.prems(2) by simp
    have "synthRunNode H plat r \<in> set (filter (\<lambda>n. n_id n = i) (b_nodes (addRunTask H plat r st)))"
      unfolding f by simp
    then have "synthRunNode H plat r \<in> set (b_nodes (addRunTask H plat r st))"
      by simp
    then have "n_id (synthRunNode H plat r) \<in> nodeIds (addRunTask H plat r st)"
      unfolding nodeIds_def set_map by (rule imageI)
    then have "i \<in> nodeIds (addRunTask H plat r st)" using True by simp
    from run_nodes_present[OF a this assms(3), of plat rs] f True show ?thesis by simp
  next
    case False
    have f: "filter (\<lambda>n. n_id n = i) (b_nodes (addRunTask H plat r st)) = []"
      unfolding filter_id_step[OF Cons.prems(1) assms(3)] old using False by simp
    then have "i \<notin> nodeIds (addRunTask H plat r st)"
      unfolding nodeIds_def by (auto simp: filter_empty_conv)
    from Cons.IH[OF a this] False show ?thesis by simp
  qed
qed

subsection \<open>The environment node of a run without report\<close>

lemma stableId_eq_iff: "stableId H p a = stableId H p b \<longleftrightarrow> sha16 H a = sha16 H b"
  by (simp add: stableId_def sha16_def)

lemma absent_path_absent_id:
  assumes "envPy \<notin> reportPaths plat rs" and "inj_on (sha16 H) (insert envPy (reportPaths plat rs))"
  shows "stableId H ''env'' envPy \<notin> set (map (envIdOf H plat) rs)"
proof
  assume "stableId H ''env'' envPy \<in> set (map (envIdOf H plat) rs)"
  then obtain q where q: "q \<in> set rs" "stableId H ''env'' envPy = envIdOf H plat q" by auto
  then have "sha16 H envPy = sha16 H (normPath plat (r_pythonPath q))"
    by (simp add: envIdOf_def stableId_eq_iff)
  moreover have "normPath plat (r_pythonPath q) \<in> reportPaths plat rs"
    using q(1) by (simp add: reportPaths_def)
  ultimately have "envPy = normPath plat (r_pythonPath q)"
    using assms(2) by (meson inj_onD insertI1 insertI2)
  with \<open>normPath plat (r_pythonPath q) \<in> reportPaths plat rs\<close> assms(1) show False by simp
qed

lemma find_run_some:
  assumes "run \<in> set runs"
  shows "\<exists>r. find (\<lambda>x. runEnvId H plat x = runEnvId H plat run) runs = Some r
             \<and> runEnvId H plat r = runEnvId H plat run"
proof (cases "find (\<lambda>x. runEnvId H plat x = runEnvId H plat run) runs")
  case None
  then have "\<forall>x \<in> set runs. runEnvId H plat x \<noteq> runEnvId H plat run"
    by (simp add: find_None_iff)
  with assms show ?thesis by blast
next
  case (Some r)
  then show ?thesis by (auto simp: find_Some_iff)
qed

text \<open>
  C6, as the code has it. Take a run of a call whose task mode is not "none" and whose
  selected environment path (normalised) is the path of no surviving report, where the
  16-digit digest prefix tells that path from the paths of the surviving reports (no
  collision); in clustered mode the path is not \<open>__proto__\<close>, the one key that the
  counting objects of \<open>clusterRuns\<close> cannot hold. Then the graph has a node with the
  environment id of that path; every node with that id is an environment node; and the
  graph has a \<open>ROUTES_TASK_TO\<close> edge from the task node of the run to that id, both
  ends of which are nodes. The health status of the node is "unknown" in clustered mode.
  In "runs" mode it is the \<open>selected.status\<close> that the first run referring to this
  environment recorded, and "unknown" only if that run recorded none.
\<close>

theorem env_node_for_unreported_run:
  assumes "g = graph (mapRender H host clk reports runs options)"
    and "plat = host_os host" and "mode = optTaskMode options" and "mode \<noteq> ModeNone"
    and "run \<in> set runs"
    and "envPy = normPath plat (sel_pythonPath (selected run))"
    and "envPy \<notin> reportPaths plat (includedReports plat reports options)"
    and "inj_on (sha16 H) (insert envPy (reportPaths plat (includedReports plat reports options)))"
    and "mode = ModeClustered \<longrightarrow> sel_pythonPath (selected run) \<noteq> ''__proto__''"
  shows "(\<exists>n \<in> set (nodes g). n_id n = runEnvId H plat run)
       \<and> (\<forall>n \<in> set (nodes g). n_id n = runEnvId H plat run \<longrightarrow>
             n_type n = Venv
             \<and> statusOf n = Some (synthStatus H plat mode runs (runEnvId H plat run)))
       \<and> (\<exists>e \<in> set (edges g). e_type e = ROUTES_TASK_TO \<and> e_from e = taskNodeId H mode run
             \<and> e_to e = runEnvId H plat run \<and> resolves g e)"
proof -
  define rs where "rs = includedReports plat reports options"
  define st0 where "st0 = reportPhase H plat clk rs"
  define st where "st = taskPhase H plat mode runs st0"
  define i where "i = runEnvId H plat run"
  have g: "g = buildGraph H host clk reports runs options" using assms(1) by simp
  have ns: "nodes g = b_nodes st" and es: "edges g = b_edges st"
    unfolding g st_def st0_def rs_def assms(2,3) by (simp_all add: buildGraph_nodes_edges)
  have inv0: "taskInv H st0" unfolding st0_def by (rule taskInv_reportPhase)
  have hd_i: "hd i = CHR ''e''" unfolding i_def by simp
  have "i \<notin> set (map (envIdOf H plat) rs)"
    unfolding i_def runEnvId_def assms(6)[symmetric]
    using absent_path_absent_id[OF assms(7,8)] unfolding rs_def .
  then have fresh: "i \<notin> nodeIds st0"
    using reportPhase_nodeIds[of i H plat clk rs] hd_i unfolding st0_def by blast
  have active: "tasksActive mode runs" using assms(4,5) by (auto simp: tasksActive_def)
  \<comment> \<open>the edge\<close>
  have "hasRoute st (taskNodeId H mode run) i"
    unfolding st_def i_def by (rule taskPhase_route[OF inv0 assms(4,5,9)])
  then obtain e where e: "e \<in> set (b_edges st)" "e_type e = ROUTES_TASK_TO"
      "e_from e = taskNodeId H mode run" "e_to e = i"
    unfolding hasRoute_def by blast
  have res: "resolves g e"
    unfolding g by (rule edges_resolve) (use e(1) es g in simp)
  then have ex: "\<exists>n \<in> set (nodes g). n_id n = i"
    unfolding resolves_def e(4) by auto
  \<comment> \<open>the status\<close>
  have stat: "n_type n = Venv \<and> statusOf n = Some (synthStatus H plat mode runs i)"
    if n: "n \<in> set (nodes g)" "n_id n = i" for n
  proof (cases "mode = ModeClustered")
    case True
    have "n \<in> set (b_nodes (fold (addCluster H plat) (clusterRuns H runs) st0))"
      using n(1) True active unfolding ns st_def by (simp add: taskPhase_def)
    from cluster_nodes_status[OF inv0 fresh hd_i this n(2)]
    show ?thesis using True by (simp add: synthStatus_def)
  next
    case False
    have nn: "n \<in> set (b_nodes (fold (addRunTask H plat) runs st0))"
      using n(1) False active unfolding ns st_def by (simp add: taskPhase_def)
    from find_run_some[OF assms(5), of H plat] obtain r where
      r: "find (\<lambda>x. runEnvId H plat x = i) runs = Some r" unfolding i_def by blast
    have "filter (\<lambda>n. n_id n = i) (b_nodes (fold (addRunTask H plat) runs st0)) = [synthRunNode H plat r]"
      unfolding run_nodes_absent[OF inv0 fresh hd_i] r by simp
    moreover have "n \<in> set (filter (\<lambda>n. n_id n = i) (b_nodes (fold (addRunTask H plat) runs st0)))"
      using nn n(2) by simp
    ultimately have "n = synthRunNode H plat r" by simp
    then show ?thesis using False r by (simp add: synthStatus_def)
  qed
  show ?thesis
    using ex stat e res unfolding es i_def by blast
qed

theorem env_node_for_unreported_run_witness:
  "n_type (nodes (graph (mapRender id exHost clockA [exReport ''/a'' StGood 90 ''/usr'']
             [exRun ''r'' ''c'' [] ''/z'' False] (exOptions ModeRuns))) ! 3) = Venv
   \<and> statusOf (nodes (graph (mapRender id exHost clockA [exReport ''/a'' StGood 90 ''/usr'']
             [exRun ''r'' ''c'' [] ''/z'' False] (exOptions ModeRuns))) ! 3) = Some StGood"
proof -
  let ?reports = "[exReport ''/a'' StGood 90 ''/usr'']"
  let ?run = "exRun ''r'' ''c'' [] ''/z'' False"
  let ?opts = "exOptions ModeRuns"
  let ?g = "graph (mapRender id exHost clockA ?reports [?run] ?opts)"
  let ?plat = "host_os exHost"
  let ?envPy = "normPath ?plat (sel_pythonPath (selected ?run))"
  let ?paths = "map (\<lambda>q. normPath ?plat (r_pythonPath q)) (includedReports ?plat ?reports ?opts)"
  have h4: "optTaskMode ?opts \<noteq> ModeNone" by (simp add: exOptions_def optTaskMode_def)
  have h5: "?run \<in> set [?run]" by simp
  have d: "distinct (map (sha16 id) (?envPy # ?paths))" by code_simp
  have h7: "?envPy \<notin> reportPaths ?plat (includedReports ?plat ?reports ?opts)"
    using d unfolding reportPaths_def by auto
  have "inj_on (sha16 id) (set (?envPy # ?paths))"
    using d unfolding distinct_map by (rule conjunct2)
  then have h8: "inj_on (sha16 id) (insert ?envPy (reportPaths ?plat (includedReports ?plat ?reports ?opts)))"
    unfolding reportPaths_def by simp
  have h9: "optTaskMode ?opts = ModeClustered \<longrightarrow> sel_pythonPath (selected ?run) \<noteq> ''__proto__''"
    by (simp add: exOptions_def optTaskMode_def)
  note th = env_node_for_unreported_run[OF refl refl refl h4 h5 refl h7 h8 h9, of clockA]
  have m: "nodes ?g ! 3 \<in> set (nodes ?g)" by code_simp
  have i: "n_id (nodes ?g ! 3) = runEnvId id ?plat ?run" by code_simp
  have s: "synthStatus id ?plat (optTaskMode ?opts) [?run] (runEnvId id ?plat ?run) = StGood"
    by code_simp
  from th[THEN conjunct2, THEN conjunct1, THEN bspec, OF m, THEN mp, OF i]
  show ?thesis unfolding s .
qed

theorem env_node_unknown_counterexample:
  "map statusOf (nodes (graph (mapRender id exHost clockA []
       [exRun ''r'' ''c'' [] ''/z'' False] (exOptions ModeRuns))))
     = [Some StBad, Some StGood]
   \<and> map n_type (nodes (graph (mapRender id exHost clockA []
       [exRun ''r'' ''c'' [] ''/z'' False] (exOptions ModeRuns))))
     = [Task, Venv]
   \<and> map n_path (nodes (graph (mapRender id exHost clockA []
       [exRun ''r'' ''c'' [] ''/z'' False] (exOptions ModeRuns))))
     = [None, Some ''/z'']"
  by code_simp


text \<open>
  The key \<open>__proto__\<close> in clustered mode: the cluster of the run has no entry for the
  path, so the graph consists of the task node alone, without an environment node and
  without an edge.
\<close>

lemma proto_path_clustered:
  "map n_type (nodes (graph (mapRender id exHost clockA []
       [exRun ''r'' ''c'' [] ''__proto__'' False] (exOptions ModeClustered)))) = [Task]
   \<and> edges (graph (mapRender id exHost clockA []
       [exRun ''r'' ''c'' [] ''__proto__'' False] (exOptions ModeClustered))) = []"
  by code_simp


section \<open>Independence of the wall clock\<close>

lemma eraseStamp_simps [simp]:
  "n_id (eraseStamp S n) = n_id n"
  "n_type (eraseStamp S n) = n_type n"
  "n_label (eraseStamp S n) = n_label n"
  "n_path (eraseStamp S n) = n_path n"
  "n_python (eraseStamp S n) = n_python n"
  "n_health (eraseStamp S n) = n_health n"
  "n_caps (eraseStamp S n) = n_caps n"
  "n_fingerprints (eraseStamp S n) = n_fingerprints n"
  by (simp_all add: eraseStamp_def)

lemma eraseStamp_derived [simp]:
  "statusOf (eraseStamp S n) = statusOf n"
  "scoreOf (eraseStamp S n) = scoreOf n"
  by (simp_all add: statusOf_def scoreOf_def)

lemma eraseStamp_health: "eraseStamp S (n\<lparr> n_health := h \<rparr>) = (eraseStamp S n)\<lparr> n_health := h \<rparr>"
  by (simp add: eraseStamp_def)

lemma eraseStamp_base: "eraseStamp S (baseNode H i k bk pv ar t) = eraseStamp S (baseNode H i k bk pv ar t')"
  by (simp add: eraseStamp_def baseNode_def)

lemma eraseStamp_env:
  "envIdOf H plat r \<in> S \<Longrightarrow> eraseStamp S (envNode H plat r t) = eraseStamp S (envNode H plat r t')"
  by (simp add: eraseStamp_def envNode_def envIdOf_def Let_def)

subsection \<open>The roll-up does not read the stamps\<close>

lemma childNodesOf_erase:
  "childNodesOf (map (eraseStamp S) ns) es b = map (eraseStamp S) (childNodesOf ns es b)"
  by (simp add: childNodesOf_def Let_def filter_map comp_def)

lemma worstStatus_erase: "worstStatus (map (eraseStamp S) ns) = worstStatus ns"
  by (simp add: worstStatus_def list_ex_iff)

lemma medianScore_erase: "medianScore (map (eraseStamp S) ns) = medianScore ns"
proof -
  have "List.map_filter scoreOf (map (eraseStamp S) ns) = List.map_filter scoreOf ns"
    by (simp add: List.map_filter_def filter_map comp_def)
  then show ?thesis by (simp add: medianScore_def)
qed

lemma rollupBase_erase:
  "rollupBase (map (eraseStamp S) ns) es (eraseStamp S b) = eraseStamp S (rollupBase ns es b)"
  by (simp add: rollupBase_def Let_def childNodesOf_erase worstStatus_erase medianScore_erase
        eraseStamp_health)

lemma rollup_fold_erase:
  "map (eraseStamp S) (fold (\<lambda>i cur. cur[i := rollupBase cur es (cur ! i)]) is ns)
     = fold (\<lambda>i cur. cur[i := rollupBase cur es (cur ! i)]) is (map (eraseStamp S) ns)"
proof (induction "is" arbitrary: ns)
  case Nil
  then show ?case by simp
next
  case (Cons i "is")
  have "map (eraseStamp S) (ns[i := rollupBase ns es (ns ! i)])
          = (map (eraseStamp S) ns)[i := rollupBase (map (eraseStamp S) ns) es (map (eraseStamp S) ns ! i)]"
  proof (cases "i < length ns")
    case True
    then show ?thesis by (simp add: map_update rollupBase_erase)
  next
    case False
    then have "length ns \<le> i" by simp
    then show ?thesis by (simp add: list_update_beyond)
  qed
  then show ?case using Cons.IH[of "ns[i := rollupBase ns es (ns ! i)]"] by simp
qed

lemma rollup_erase: "map (eraseStamp S) (rollup ns es) = rollup (map (eraseStamp S) ns) es"
proof -
  have "filter (\<lambda>i. n_type (map (eraseStamp S) ns ! i) = Base) [0..<length ns]
          = filter (\<lambda>i. n_type (ns ! i) = Base) [0..<length ns]"
    by (rule filter_cong) simp_all
  then show ?thesis by (simp add: rollup_def rollup_fold_erase)
qed

subsection \<open>Each step keeps two builders similar\<close>

lemma sim_refl: "sim S st st"
  by (simp add: sim_def)

lemma addReport_nodes_exact:
  "b_nodes (addReport H plat clk r st) =
     b_nodes st
     @ [envNode H plat r (case r_ranAt r of None \<Rightarrow> clk (ticks st) | Some t \<Rightarrow> t)]
     @ (if lookupTruthy (baseIdByKey st) (normPath plat (deriveBaseKey r)) = None
        then [baseNode H (baseIdOf H plat r) (normPath plat (deriveBaseKey r))
                (deriveBaseKey r) (derivePyVersion r) (pickArch (r_facts r))
                (clk (case r_ranAt r of None \<Rightarrow> ticks st + 1 | Some t \<Rightarrow> ticks st))]
        else [])"
  by (simp add: addReport_def getOrCreateBaseNode_def Let_def lookupTruthy_def baseIdOf_def
        split: option.splits prod.splits)

lemma addReport_nodes_erased:
  assumes "r_ranAt r = None \<longrightarrow> envIdOf H plat r \<in> S"
  shows "map (eraseStamp S) (b_nodes (addReport H plat clk r st)) =
     map (eraseStamp S) (b_nodes st)
     @ [eraseStamp S (envNode H plat r (case r_ranAt r of None \<Rightarrow> [] | Some t \<Rightarrow> t))]
     @ (if lookupTruthy (baseIdByKey st) (normPath plat (deriveBaseKey r)) = None
        then [eraseStamp S (baseNode H (baseIdOf H plat r) (normPath plat (deriveBaseKey r))
                (deriveBaseKey r) (derivePyVersion r) (pickArch (r_facts r)) [])]
        else [])"
proof -
  have e: "eraseStamp S (envNode H plat r (case r_ranAt r of None \<Rightarrow> clk (ticks st) | Some t \<Rightarrow> t))
         = eraseStamp S (envNode H plat r (case r_ranAt r of None \<Rightarrow> [] | Some t \<Rightarrow> t))"
  proof (cases "r_ranAt r")
    case None
    then have "envIdOf H plat r \<in> S" using assms by simp
    then show ?thesis unfolding None option.case by (rule eraseStamp_env)
  next
    case (Some t)
    then show ?thesis by simp
  qed
  have b: "eraseStamp S (baseNode H (baseIdOf H plat r) (normPath plat (deriveBaseKey r))
                (deriveBaseKey r) (derivePyVersion r) (pickArch (r_facts r))
                (clk (case r_ranAt r of None \<Rightarrow> ticks st + 1 | Some t \<Rightarrow> ticks st)))
         = eraseStamp S (baseNode H (baseIdOf H plat r) (normPath plat (deriveBaseKey r))
                (deriveBaseKey r) (derivePyVersion r) (pickArch (r_facts r)) [])"
    by (rule eraseStamp_base)
  show ?thesis
    unfolding addReport_nodes_exact map_append list.map e
    by (simp add: b)
qed

lemma addReport_sim:
  assumes "sim S st st'" and "r_ranAt r = None \<longrightarrow> envIdOf H plat r \<in> S"
  shows "sim S (addReport H plat clk r st) (addReport H plat clk' r st')"
proof -
  have bm: "baseIdByKey st = baseIdByKey st'" and em: "envIdByPyPath st = envIdByPyPath st'"
    and ni: "dom (nodeIndex st) = dom (nodeIndex st')" and es: "b_edges st = b_edges st'"
    and ns: "map (eraseStamp S) (b_nodes st) = map (eraseStamp S) (b_nodes st')"
    using assms(1) by (simp_all add: sim_def)
  have br: "baseRef H plat st r = baseRef H plat st' r" by (simp add: baseRef_def bm)
  show ?thesis
    unfolding sim_def addReport_nodes_erased[OF assms(2)] addReport_edges addReport_baseMap
      addReport_envMap addReport_index
    by (simp add: bm em ni es ns br)
qed

lemma fold_addReport_sim:
  assumes "sim S st st'" and "\<forall>r \<in> set rs. r_ranAt r = None \<longrightarrow> envIdOf H plat r \<in> S"
  shows "sim S (fold (addReport H plat clk) rs st) (fold (addReport H plat clk') rs st')"
  using assms
proof (induction rs arbitrary: st st')
  case Nil
  then show ?case by simp
next
  case (Cons r rs)
  have "sim S (addReport H plat clk r st) (addReport H plat clk' r st')"
    by (rule addReport_sim[OF Cons.prems(1)]) (use Cons.prems(2) in simp)
  from Cons.IH[OF this] Cons.prems(2) show ?case by simp
qed

lemma stampless_covers: "\<forall>r \<in> set rs. r_ranAt r = None \<longrightarrow> envIdOf H plat r \<in> stampless H plat rs"
  by (auto simp: stampless_def)

lemma reportPhase_sim:
  assumes "\<forall>r \<in> set rs. r_ranAt r = None \<longrightarrow> envIdOf H plat r \<in> S"
  shows "sim S (reportPhase H plat clk rs) (reportPhase H plat clk' rs)"
proof -
  let ?a = "fold (addReport H plat clk) rs emptyBuilder"
  let ?b = "fold (addReport H plat clk') rs emptyBuilder"
  have s: "sim S ?a ?b" by (rule fold_addReport_sim[OF sim_refl assms])
  then have ns: "map (eraseStamp S) (b_nodes ?a) = map (eraseStamp S) (b_nodes ?b)"
    and es: "b_edges ?a = b_edges ?b" by (simp_all add: sim_def)
  have r: "map (eraseStamp S) (rollup (b_nodes ?a) (b_edges ?a))
             = map (eraseStamp S) (rollup (b_nodes ?b) (b_edges ?b))"
    unfolding rollup_erase ns es by (rule refl)
  have ids: "map n_id (b_nodes ?a) = map n_id (b_nodes ?b)"
  proof -
    have "map n_id (map (eraseStamp S) (b_nodes ?a)) = map n_id (map (eraseStamp S) (b_nodes ?b))"
      using ns by simp
    then show ?thesis by (simp add: comp_def)
  qed
  show ?thesis
    using s r ids by (simp add: sim_def reportPhase_def Let_def)
qed

subsection \<open>The task phase\<close>

lemma sim_pushNode: "sim S st st' \<Longrightarrow> sim S (pushNode n st) (pushNode n st')"
  by (simp add: sim_def)

lemma sim_setIndex: "sim S st st' \<Longrightarrow> sim S (setIndex n st) (setIndex n st')"
  by (simp add: sim_def)

lemma sim_pushEdge: "sim S st st' \<Longrightarrow> sim S (pushEdge e st) (pushEdge e st')"
  by (simp add: sim_def)

lemma sim_index_None: "sim S st st' \<Longrightarrow> (nodeIndex st i = None) = (nodeIndex st' i = None)"
  unfolding sim_def by (metis domIff)

lemma sim_ensure:
  assumes "sim S st st'"
  shows "sim S (ensureEnvNode k i n st) (ensureEnvNode k i n st')"
proof (cases "nodeIndex st i = None")
  case True
  then have "nodeIndex st' i = None" using sim_index_None[OF assms] by simp
  then show ?thesis using True assms by (simp add: ensureEnvNode_def sim_def)
next
  case False
  have a: "nodeIndex st' i \<noteq> None" using False unfolding sim_index_None[OF assms, of i] .
  show ?thesis unfolding ensureEnvNode_def if_not_P[OF False] if_not_P[OF a] by (rule assms)
qed

lemma sim_resolve: "sim S st st' \<Longrightarrow> resolveEnvId H k st = resolveEnvId H k st'"
  by (simp add: sim_def resolveEnvId_def)

lemma addClusterEnv_sim:
  assumes "sim S st st'"
  shows "sim S (addClusterEnv H plat c entry st) (addClusterEnv H plat c entry st')"
  unfolding addClusterEnv_def Let_def sim_resolve[OF assms, of H]
  by (simp add: sim_pushEdge sim_ensure assms)

lemma fold_addClusterEnv_sim:
  "sim S st st' \<Longrightarrow> sim S (fold (addClusterEnv H plat c) es st) (fold (addClusterEnv H plat c) es st')"
  by (induction es arbitrary: st st') (simp_all add: addClusterEnv_sim)

lemma addCluster_sim:
  "sim S st st' \<Longrightarrow> sim S (addCluster H plat c st) (addCluster H plat c st')"
  unfolding addCluster_def by (intro fold_addClusterEnv_sim sim_setIndex sim_pushNode)

lemma addRunTask_sim:
  assumes "sim S st st'"
  shows "sim S (addRunTask H plat run st) (addRunTask H plat run st')"
proof -
  have a: "sim S (setIndex (runTaskNode H run) (pushNode (runTaskNode H run) st))
                 (setIndex (runTaskNode H run) (pushNode (runTaskNode H run) st'))"
    by (intro sim_setIndex sim_pushNode assms)
  show ?thesis
    unfolding addRunTask_def Let_def sim_resolve[OF a, of H]
    by (simp add: sim_pushEdge sim_ensure a)
qed

lemma taskPhase_sim:
  assumes "sim S st st'"
  shows "sim S (taskPhase H plat mode runs st) (taskPhase H plat mode runs st')"
proof -
  have c: "sim S (fold (addCluster H plat) cs st) (fold (addCluster H plat) cs st')" for cs
    using assms by (induction cs arbitrary: st st') (simp_all add: addCluster_sim)
  have r: "sim S (fold (addRunTask H plat) rs st) (fold (addRunTask H plat) rs st')" for rs
    using assms by (induction rs arbitrary: st st') (simp_all add: addRunTask_sim)
  show ?thesis using c r assms by (simp add: taskPhase_def)
qed

lemma final_sim:
  "sim (stampless H plat rs)
     (taskPhase H plat mode runs (reportPhase H plat clk rs))
     (taskPhase H plat mode runs (reportPhase H plat clk' rs))"
  by (intro taskPhase_sim reportPhase_sim stampless_covers)

subsection \<open>What is computed from the nodes does not read the stamps\<close>

lemma erased_map_eq:
  assumes "map (eraseStamp S) ns = map (eraseStamp S) ns'" and "\<And>n. f (eraseStamp S n) = f n"
  shows "map f ns = map f ns'"
proof -
  have "map f (map (eraseStamp S) ns) = map f (map (eraseStamp S) ns')" using assms(1) by simp
  then show ?thesis by (simp add: comp_def assms(2))
qed

lemma erased_count_eq:
  assumes "map (eraseStamp S) ns = map (eraseStamp S) ns'" and "\<And>n. Q (eraseStamp S n) = Q n"
  shows "length (filter Q ns) = length (filter Q ns')"
proof -
  have m: "map Q ns = map Q ns'" using assms(1) by (rule erased_map_eq) (rule assms(2))
  have f: "length (filter Q xs) = length (filter id (map Q xs))" for xs :: "GraphNode list"
    by (simp add: filter_map comp_def)
  show ?thesis unfolding f[of ns] f[of ns'] m by (rule refl)
qed

lemma summary_counts_eq:
  assumes "map (eraseStamp S) ns = map (eraseStamp S) ns'"
  shows "length (filter (\<lambda>n. n_type n = T) ns) = length (filter (\<lambda>n. n_type n = T) ns')"
    and "countStatus ns s = countStatus ns' s"
  unfolding countStatus_def
  by (rule erased_count_eq[where S = S, OF assms], simp)+

lemma buildGraph_erased:
  "eraseGraph (stampless H (host_os host) (includedReports (host_os host) reports options))
     (buildGraph H host clk reports runs options)
   = eraseGraph (stampless H (host_os host) (includedReports (host_os host) reports options))
       (buildGraph H host clk' reports runs options)"
proof -
  let ?S = "stampless H (host_os host) (includedReports (host_os host) reports options)"
  let ?st = "\<lambda>k. taskPhase H (host_os host) (optTaskMode options) runs
                (reportPhase H (host_os host) k (includedReports (host_os host) reports options))"
  have s: "sim ?S (?st clk) (?st clk')" by (rule final_sim)
  then have ns: "map (eraseStamp ?S) (b_nodes (?st clk)) = map (eraseStamp ?S) (b_nodes (?st clk'))"
    and es: "b_edges (?st clk) = b_edges (?st clk')" by (simp_all add: sim_def)
  show ?thesis
    unfolding buildGraph_def Let_def eraseGraph_def
    by (simp add: ns es summary_counts_eq[OF ns])
qed

subsection \<open>Insights and diagram do not read the stamps\<close>

lemma eraseGraph_simps [simp]:
  "nodes (eraseGraph S g) = map (eraseStamp S) (nodes g)"
  "edges (eraseGraph S g) = edges g"
  "summary (eraseGraph S g) = summary g"
  "g_host (eraseGraph S g) = g_host g"
  "g_version (eraseGraph S g) = g_version g"
  by (simp_all add: eraseGraph_def)

lemma find_erase:
  "find (\<lambda>n. n_id n = i) (map (eraseStamp S) ns) = map_option (eraseStamp S) (find (\<lambda>n. n_id n = i) ns)"
  by (induction ns) simp_all

lemma blastChildren_erase:
  "blastChildren (eraseGraph S g) (eraseStamp S b) = map (eraseStamp S) (blastChildren g b)"
  by (simp add: blastChildren_def Let_def filter_map comp_def)

lemma badCountOf_erase: "badCountOf (map (eraseStamp S) ns) = badCountOf ns"
  by (simp add: badCountOf_def filter_map comp_def)

lemma blastInsight_erase: "blastInsight (eraseStamp S b) k t = blastInsight b k t"
  by (simp add: blastInsight_def)

lemma ruleBlastRadius_erase: "ruleBlastRadius (eraseGraph S g) = ruleBlastRadius g"
  by (simp add: ruleBlastRadius_def Let_def filter_map comp_def blastChildren_erase
      badCountOf_erase blastInsight_erase cong: if_cong)

lemma case_find_erase:
  assumes "\<And>env. F (eraseStamp S env) = F env"
  shows "case_option a F (find (\<lambda>n. n_id n = i) (map (eraseStamp S) ns))
           = case_option a F (find (\<lambda>n. n_id n = i) ns)"
  unfolding find_erase by (cases "find (\<lambda>n. n_id n = i) ns") (simp_all add: assms)

lemma if_case_find_erase:
  assumes "\<And>env. F (eraseStamp S env) = F env"
  shows "(if c then b else case_option a F (find (\<lambda>n. n_id n = i) (map (eraseStamp S) ns)))
           = (if c then b else case_option a F (find (\<lambda>n. n_id n = i) ns))"
  by (simp add: case_find_erase[of F, OF assms])

lemma ruleHotspot_erase: "ruleHotspot (eraseGraph S g) = ruleHotspot g"
  unfolding ruleHotspot_def Let_def eraseGraph_simps
  by (subst if_case_find_erase) simp_all

lemma ruleTopIssue_erase: "ruleTopIssue (eraseGraph S g) = ruleTopIssue g"
  unfolding ruleTopIssue_def eraseGraph_simps by (rule refl)

lemma ruleContagion_erase: "ruleContagion (eraseGraph S g) cs = ruleContagion g cs"
  unfolding ruleContagion_def eraseGraph_simps by (rule refl)

lemma ruleInsights_erase: "ruleInsights (eraseGraph S g) rs cs = ruleInsights g rs cs"
  unfolding ruleInsights_def ruleBlastRadius_erase ruleHotspot_erase ruleTopIssue_erase
    ruleContagion_erase by (rule refl)

lemma aggregateInsights_erase: "aggregateInsights (eraseGraph S g) rs cs = aggregateInsights g rs cs"
  by (simp add: aggregateInsights_def ruleInsights_erase)

lemma mermaidLabel_erase [simp]: "mermaidLabel (eraseStamp S n) = mermaidLabel n"
  by (simp add: mermaidLabel_def)

lemma midOf_erase [simp]: "midOf H (map (eraseStamp S) ns) i = midOf H ns i"
  by (simp add: midOf_def comp_def)

lemma attached_erase:
  "List.map_filter (\<lambda>e. find (\<lambda>n. n_id n = e_to e) (rev (map (eraseStamp S) ns))) es
     = map (eraseStamp S) (List.map_filter (\<lambda>e. find (\<lambda>n. n_id n = e_to e) (rev ns)) es)"
proof (induction es)
  case Nil
  then show ?case by (simp add: List.map_filter_simps)
next
  case (Cons e es)
  have f: "find (\<lambda>n. n_id n = e_to e) (rev (map (eraseStamp S) ns))
             = map_option (eraseStamp S) (find (\<lambda>n. n_id n = e_to e) (rev ns))"
    unfolding rev_map by (rule find_erase)
  show ?case
    using Cons unfolding List.map_filter_simps f
    by (cases "find (\<lambda>n. n_id n = e_to e) (rev ns)") simp_all
qed

lemma mermaid_subgraphs_erase:
  "concat (map (\<lambda>base.
       let attached = filter (\<lambda>n. n_type n = Venv)
             (List.map_filter (\<lambda>e. find (\<lambda>n. n_id n = e_to e) (rev (map (eraseStamp S) ns)))
                (filter (\<lambda>e. e_from e = n_id base) es))
       in if attached = [] then []
          else [''  subgraph '' @ safeMermaidId H (n_id base) @ ''_cluster[''
                @ quoted (escapeMermaid (n_label base)) @ '']'']
               @ map (\<lambda>v. ''    '' @ safeMermaidId H (n_id v)) attached
               @ [''  end'']) (map (eraseStamp S) bs))
   = concat (map (\<lambda>base.
       let attached = filter (\<lambda>n. n_type n = Venv)
             (List.map_filter (\<lambda>e. find (\<lambda>n. n_id n = e_to e) (rev ns))
                (filter (\<lambda>e. e_from e = n_id base) es))
       in if attached = [] then []
          else [''  subgraph '' @ safeMermaidId H (n_id base) @ ''_cluster[''
                @ quoted (escapeMermaid (n_label base)) @ '']'']
               @ map (\<lambda>v. ''    '' @ safeMermaidId H (n_id v)) attached
               @ [''  end'']) bs)"
  by (simp add: Let_def filter_map comp_def attached_erase cong: if_cong)

lemma mermaid_nodes_erase:
  "map (\<lambda>n. ''  '' @ safeMermaidId H (n_id n) @ ''['' @ quoted (escapeMermaid (mermaidLabel n))
                                @ '']:::''
                                @ (if n_type n = Base then ''base''
                                   else if n_type n = Task then ''task''
                                   else mermaidClass (case statusOf n of
                                                        None \<Rightarrow> StUnknown | Some s \<Rightarrow> s))) (map (eraseStamp S) ns)
  = map (\<lambda>n. ''  '' @ safeMermaidId H (n_id n) @ ''['' @ quoted (escapeMermaid (mermaidLabel n))
                                @ '']:::''
                                @ (if n_type n = Base then ''base''
                                   else if n_type n = Task then ''task''
                                   else mermaidClass (case statusOf n of
                                                        None \<Rightarrow> StUnknown | Some s \<Rightarrow> s))) ns"
  by (simp add: comp_def cong: if_cong)

lemma filter_base_erase:
  "filter (\<lambda>n. n_type n = Base) (map (eraseStamp S) ns)
     = map (eraseStamp S) (filter (\<lambda>n. n_type n = Base) ns)"
  by (simp add: filter_map comp_def)

lemma renderMermaid_erase: "renderMermaid H (eraseGraph S g) a b = renderMermaid H g a b"
  unfolding renderMermaid_def Let_def eraseGraph_simps filter_base_erase mermaid_nodes_erase
    mermaid_subgraphs_erase[unfolded Let_def] midOf_erase map_is_Nil_conv
  by (rule refl)

subsection \<open>The whole result\<close>

lemma mapRender_erased:
  "eraseResult (stampless H (host_os host) (includedReports (host_os host) reports options))
     (mapRender H host clk reports runs options)
   = eraseResult (stampless H (host_os host) (includedReports (host_os host) reports options))
       (mapRender H host clk' reports runs options)"
proof -
  let ?S = "stampless H (host_os host) (includedReports (host_os host) reports options)"
  let ?g = "buildGraph H host clk reports runs options"
  let ?g' = "buildGraph H host clk' reports runs options"
  have e: "eraseGraph ?S ?g = eraseGraph ?S ?g'" by (rule buildGraph_erased)
  have i: "aggregateInsights ?g rs cs = aggregateInsights ?g' rs cs" for rs cs
    using aggregateInsights_erase[of ?S ?g rs cs] aggregateInsights_erase[of ?S ?g' rs cs] e by simp
  have m: "renderMermaid H ?g a b = renderMermaid H ?g' a b" for a b
    using renderMermaid_erase[of H ?S ?g a b] renderMermaid_erase[of H ?S ?g' a b] e by simp
  show ?thesis
    unfolding mapRender_def Let_def eraseResult_def by (simp add: e i m)
qed

end
